theory Spec2Isabelle
  imports Complex_Main "HOL-Library.Sublist"
begin

section \<open>Python values\<close>

text \<open>
  The connection layer moves JSON documents around without validating them, so the
  fields of its objects hold whatever \<^verbatim>\<open>json.load\<close> produced. A JSON document is a
  value of \<open>json\<close>; Python's \<^verbatim>\<open>None\<close> is \<open>JNull\<close>. A \<^verbatim>\<open>dict\<close> is an association list
  in insertion order. Non-integer JSON numbers are left out of the value type.
\<close>

datatype json =
    JNull
  | JBool bool
  | JInt int
  | JStr string
  | JArr "json list"
  | JObj "(string \<times> json) list"

text \<open>The exception classes that the modelled code can meet, with the message of \<^verbatim>\<open>str(e)\<close>.\<close>

datatype exc_class =
    AttributeError | TypeError | ValueError | KeyError | JSONDecodeError
  | UnicodeDecodeError | ProcessLookupError | OSError | ClientError | TimeoutError

datatype exn = Exc exc_class string


fun str_exn :: "exn \<Rightarrow> string" where
  "str_exn (Exc c m) = m"

subsection \<open>Dictionaries in insertion order\<close>

definition dict_contains :: "('k \<times> 'v) list \<Rightarrow> 'k \<Rightarrow> bool" where
  "dict_contains d k = (k \<in> set (map fst d))"

definition dict_get :: "('k \<times> 'v) list \<Rightarrow> 'k \<Rightarrow> 'v option" where
  "dict_get d k = map_of d k"

text \<open>\<^verbatim>\<open>d[k] = v\<close>: an existing key keeps its position, a new key goes to the end.\<close>

fun dict_set :: "('k \<times> 'v) list \<Rightarrow> 'k \<Rightarrow> 'v \<Rightarrow> ('k \<times> 'v) list" where
  "dict_set [] k v = [(k, v)]"
| "dict_set ((k', v') # d) k v =
     (if k' = k then (k, v) # d else (k', v') # dict_set d k v)"

subsection \<open>Operators on values\<close>

text \<open>Truth value of an object, as \<^verbatim>\<open>if x:\<close> and \<^verbatim>\<open>x and y\<close> and \<^verbatim>\<open>x or y\<close> test it.\<close>

fun truthy :: "json \<Rightarrow> bool" where
  "truthy JNull = False"
| "truthy (JBool b) = b"
| "truthy (JInt n) = (n \<noteq> 0)"
| "truthy (JStr s) = (s \<noteq> [])"
| "truthy (JArr xs) = (xs \<noteq> [])"
| "truthy (JObj kvs) = (kvs \<noteq> [])"

primrec is_substring :: "string \<Rightarrow> string \<Rightarrow> bool" where
  "is_substring sub [] = (sub = [])"
| "is_substring sub (c # cs) = (prefix sub (c # cs) \<or> is_substring sub cs)"

text \<open>
  \<^verbatim>\<open>key in x\<close> for a string \<open>key\<close>: key membership in a dict, element membership in a
  list, substring test in a string, \<^verbatim>\<open>TypeError\<close> on anything else.
\<close>

fun py_in :: "string \<Rightarrow> json \<Rightarrow> exn + bool" where
  "py_in key (JObj kvs) = Inr (dict_contains kvs key)"
| "py_in key (JArr xs) = Inr (JStr key \<in> set xs)"
| "py_in key (JStr s) = Inr (is_substring key s)"
| "py_in key _ = Inl (Exc TypeError ''argument is not iterable'')"

text \<open>\<^verbatim>\<open>x[key]\<close> for a string \<open>key\<close>.\<close>

fun py_getitem :: "json \<Rightarrow> string \<Rightarrow> exn + json" where
  "py_getitem (JObj kvs) key =
     (case dict_get kvs key of
        Some v \<Rightarrow> Inr v
      | None \<Rightarrow> Inl (Exc KeyError key))"
| "py_getitem (JArr xs) key = Inl (Exc TypeError ''list indices must be integers or slices, not str'')"
| "py_getitem (JStr s) key = Inl (Exc TypeError ''string indices must be integers'')"
| "py_getitem _ key = Inl (Exc TypeError ''object is not subscriptable'')"

text \<open>\<^verbatim>\<open>x.get(key, default)\<close>: only a dict has the method.\<close>

fun py_get :: "json \<Rightarrow> string \<Rightarrow> json \<Rightarrow> exn + json" where
  "py_get (JObj kvs) key dflt =
     (case dict_get kvs key of Some v \<Rightarrow> Inr v | None \<Rightarrow> Inr dflt)"
| "py_get _ key dflt = Inl (Exc AttributeError ''object has no attribute get'')"

section \<open>Configuration loader\<close>

datatype MCPTransportType = STDIO | HTTP

text \<open>
  The dataclass declares types for its fields but checks none of them; \<open>from_dict\<close>
  stores the raw values of the entry.
\<close>

record AWSQMCPServerConfig =
  name :: string
  transport_type :: MCPTransportType
  command :: json
  args :: json
  env :: json
  timeout :: json
  url :: json
  headers :: json
  oauth_client_id :: json
  oauth_client_secret :: json
  oauth_redirect_uri :: json

text \<open>\<^verbatim>\<open>config.get(key)\<close> and \<^verbatim>\<open>config.get(key, default)\<close> on a value known to be a dict.\<close>

definition get_or :: "(string \<times> json) list \<Rightarrow> string \<Rightarrow> json \<Rightarrow> json" where
  "get_or d k dflt = (case dict_get d k of Some v \<Rightarrow> v | None \<Rightarrow> dflt)"

fun from_dict :: "string \<Rightarrow> json \<Rightarrow> exn + AWSQMCPServerConfig" where
  "from_dict nm (JObj config) =
     Inr \<lparr> name = nm,
           transport_type = (if get_or config ''type'' JNull = JStr ''http'' then HTTP else STDIO),
           command = get_or config ''command'' JNull,
           args = get_or config ''args'' (JArr []),
           env = get_or config ''env'' (JObj []),
           timeout = get_or config ''timeout'' (JInt 30000),
           url = get_or config ''url'' JNull,
           headers = get_or config ''headers'' (JObj []),
           oauth_client_id = get_or config ''oauthClientId'' JNull,
           oauth_client_secret = get_or config ''oauthClientSecret'' JNull,
           oauth_redirect_uri = get_or config ''oauthRedirectUri'' JNull \<rparr>"
| "from_dict nm _ = Inl (Exc AttributeError ''object has no attribute get'')"

text \<open>
  The loop of \<open>extract_mcp_servers\<close> over \<^verbatim>\<open>config["mcpServers"].items()\<close>: an entry whose
  \<open>from_dict\<close> raises is logged and left out, the others are stored under their name.
\<close>

fun extract_loop ::
  "(string \<times> json) list \<Rightarrow> (string \<times> AWSQMCPServerConfig) list
     \<Rightarrow> (string \<times> AWSQMCPServerConfig) list" where
  "extract_loop [] mcp_servers = mcp_servers"
| "extract_loop ((server_name, server_config) # rest) mcp_servers =
     (case from_dict server_name server_config of
        Inr mcp_server \<Rightarrow> extract_loop rest (dict_set mcp_servers server_name mcp_server)
      | Inl e \<Rightarrow> extract_loop rest mcp_servers)"

text \<open>
  \<open>config\<close> is the dict that \<open>load_configuration\<close> returned. A \<^verbatim>\<open>mcpServers\<close> value
  without the method \<^verbatim>\<open>items\<close> raises outside the loop's \<^verbatim>\<open>try\<close>.
\<close>

definition extract_mcp_servers ::
  "(string \<times> json) list \<Rightarrow> exn + (string \<times> AWSQMCPServerConfig) list" where
  "extract_mcp_servers config =
     (if \<not> dict_contains config ''mcpServers'' then Inr []
      else case get_or config ''mcpServers'' JNull of
             JObj entries \<Rightarrow> Inr (extract_loop entries [])
           | _ \<Rightarrow> Inl (Exc AttributeError ''object has no attribute items''))"

text \<open>An entry is well formed when \<open>from_dict\<close> accepts it.\<close>

definition well_formed :: "string \<times> json \<Rightarrow> bool" where
  "well_formed entry = (case from_dict (fst entry) (snd entry) of Inr c \<Rightarrow> True | Inl e \<Rightarrow> False)"

text \<open>What one entry contributes to the result: its descriptor, or nothing.\<close>

fun parsed_entry :: "string \<times> json \<Rightarrow> (string \<times> AWSQMCPServerConfig) option" where
  "parsed_entry (server_name, server_config) =
     (case from_dict server_name server_config of
        Inr c \<Rightarrow> Some (server_name, c)
      | Inl e \<Rightarrow> None)"

text \<open>The entries of a configuration file and the descriptors extracted from it.\<close>

definition entries_of :: "(string \<times> json) list \<Rightarrow> (string \<times> json) list" where
  "entries_of config =
     (case dict_get config ''mcpServers'' of Some (JObj entries) \<Rightarrow> entries | _ \<Rightarrow> [])"

definition servers_of :: "(string \<times> json) list \<Rightarrow> (string \<times> AWSQMCPServerConfig) list" where
  "servers_of config = (case extract_mcp_servers config of Inr servers \<Rightarrow> servers | Inl e \<Rightarrow> [])"


section \<open>Protocol client\<close>

text \<open>
  The network is a parameter: what \<^verbatim>\<open>session.post(endpoint, json=request)\<close> does for
  each endpoint and request. \<open>Http status body\<close> is a response with its status and the
  outcome of \<^verbatim>\<open>response.json()\<close>, which raises on a body that is not JSON.
\<close>

datatype http_outcome =
    NetError exn
  | NetTimeout
  | Http int "exn + json"

type_synonym transport = "string \<Rightarrow> json \<Rightarrow> http_outcome"

text \<open>\<open>session\<close> tells whether \<^verbatim>\<open>self.session\<close> holds a client session or \<^verbatim>\<open>None\<close>.\<close>

record MCPClient =
  server_id :: string
  endpoint :: string
  client_name :: string
  session :: bool
  capabilities :: json
  is_connected :: bool
  request_id :: int

definition MCPClient_init :: "string \<Rightarrow> string \<Rightarrow> string \<Rightarrow> MCPClient" where
  "MCPClient_init sid ep nm =
     \<lparr> server_id = sid, endpoint = ep,
       client_name = (if nm \<noteq> [] then nm else sid),
       session = False, capabilities = JObj [], is_connected = False, request_id = 0 \<rparr>"

text \<open>
  \<open>send_request\<close> returns the response document, or \<open>JNull\<close> for \<^verbatim>\<open>None\<close>. Every
  exception of the \<^verbatim>\<open>try\<close> block is logged and swallowed, also the \<^verbatim>\<open>AttributeError\<close>
  of posting on a session that is \<^verbatim>\<open>None\<close>. The flag \<open>is_connected\<close> is not written.
\<close>

definition jsonrpc_request :: "int \<Rightarrow> string \<Rightarrow> json \<Rightarrow> json" where
  "jsonrpc_request rid method params =
     JObj ([(''jsonrpc'', JStr ''2.0''), (''id'', JInt rid), (''method'', JStr method)]
           @ (if truthy params then [(''params'', params)] else []))"

definition send_request :: "transport \<Rightarrow> MCPClient \<Rightarrow> string \<Rightarrow> json \<Rightarrow> MCPClient \<times> json" where
  "send_request net c method params =
     (let rid = request_id c + 1;
          c' = c\<lparr>request_id := rid\<rparr>;
          request = jsonrpc_request rid method params
      in if \<not> session c' then (c', JNull)
         else case net (endpoint c') request of
                NetError e \<Rightarrow> (c', JNull)
              | NetTimeout \<Rightarrow> (c', JNull)
              | Http status body \<Rightarrow>
                  (if status = 200
                   then (case body of Inr j \<Rightarrow> (c', j) | Inl e \<Rightarrow> (c', JNull))
                   else (c', JNull)))"

text \<open>The test \<^verbatim>\<open>response and "result" in response\<close>.\<close>

definition has_result :: "json \<Rightarrow> exn + bool" where
  "has_result response = (if truthy response then py_in ''result'' response else Inr False)"

text \<open>
  \<open>connect\<close> returns the client and the boolean result. An exception inside the
  \<^verbatim>\<open>try\<close> (a response that is not a dict where one is used as such) clears the flag.
\<close>

definition client_info :: json where
  "client_info = JObj [(''clientInfo'', JObj [(''name'', JStr ''OAPilot''), (''version'', JStr ''1.0.0'')])]"

text \<open>The first half of \<open>connect\<close>: a session is created if there is none, then the handshake is sent.\<close>

definition initialize :: "transport \<Rightarrow> MCPClient \<Rightarrow> MCPClient \<times> json" where
  "initialize net c =
     send_request net (if \<not> session c then c\<lparr>session := True\<rparr> else c) ''initialize'' client_info"

definition connect :: "transport \<Rightarrow> MCPClient \<Rightarrow> MCPClient \<times> bool" where
  "connect net c =
     (case initialize net c of
        (c2, response) \<Rightarrow>
          (case has_result response of
             Inl e \<Rightarrow> (c2\<lparr>is_connected := False\<rparr>, False)
           | Inr False \<Rightarrow> (c2, False)
           | Inr True \<Rightarrow>
               (case py_getitem response ''result'' of
                  Inl e \<Rightarrow> (c2\<lparr>is_connected := False\<rparr>, False)
                | Inr result \<Rightarrow>
                    (case py_get result ''capabilities'' (JObj []) of
                       Inl e \<Rightarrow> (c2\<lparr>is_connected := False\<rparr>, False)
                     | Inr caps \<Rightarrow> (c2\<lparr>capabilities := caps, is_connected := True\<rparr>, True)))))"

text \<open>\<open>close_raises\<close> tells whether \<^verbatim>\<open>session.close()\<close> raises; the exception is logged.\<close>

definition disconnect :: "bool \<Rightarrow> MCPClient \<Rightarrow> MCPClient" where
  "disconnect close_raises c =
     (if session c
      then (if close_raises then c else c\<lparr>session := False, is_connected := False\<rparr>)
      else c\<lparr>is_connected := False\<rparr>)"

text \<open>The lazy connection at the head of every operation: \<^verbatim>\<open>if not self.is_connected: await self.connect()\<close>.\<close>

definition ensure_connected :: "transport \<Rightarrow> MCPClient \<Rightarrow> MCPClient" where
  "ensure_connected net c = (if \<not> is_connected c then fst (connect net c) else c)"

definition list_resources :: "transport \<Rightarrow> MCPClient \<Rightarrow> MCPClient \<times> (exn + json)" where
  "list_resources net c =
     (case send_request net (ensure_connected net c) ''resources/list'' JNull of
        (c2, response) \<Rightarrow>
          (case has_result response of
             Inl e \<Rightarrow> (c2, Inl e)
           | Inr False \<Rightarrow> (c2, Inr (JArr []))
           | Inr True \<Rightarrow>
               (case py_getitem response ''result'' of
                  Inl e \<Rightarrow> (c2, Inl e)
                | Inr result \<Rightarrow> (c2, py_get result ''resources'' (JArr [])))))"

definition call_tool :: "transport \<Rightarrow> MCPClient \<Rightarrow> string \<Rightarrow> json \<Rightarrow> MCPClient \<times> (exn + json)" where
  "call_tool net c tool_name arguments =
     (case send_request net (ensure_connected net c) ''tools/call''
             (JObj [(''name'', JStr tool_name),
                    (''arguments'', if truthy arguments then arguments else JObj [])]) of
        (c2, response) \<Rightarrow>
          (case has_result response of
             Inl e \<Rightarrow> (c2, Inl e)
           | Inr False \<Rightarrow> (c2, Inr JNull)
           | Inr True \<Rightarrow> (c2, py_getitem response ''result'')))"

section \<open>Connection manager\<close>

record MCPManager =
  clients :: "(string \<times> MCPClient) list"

definition MCPManager_init :: MCPManager where
  "MCPManager_init = \<lparr> clients = [] \<rparr>"

text \<open>
  \<open>add_server\<close> when nobody else holds the lock. \<open>max_connections\<close> is the setting
  \<^verbatim>\<open>MAX_MCP_CONNECTIONS\<close>.
\<close>

definition add_server ::
  "transport \<Rightarrow> int \<Rightarrow> MCPManager \<Rightarrow> string \<Rightarrow> string \<Rightarrow> string \<Rightarrow> MCPManager \<times> bool" where
  "add_server net max_connections m sid ep nm =
     (if dict_contains (clients m) sid then (m, False)
      else if max_connections \<le> int (length (clients m)) then (m, False)
      else let (client, ok) = connect net (MCPClient_init sid ep nm)
           in if ok then (m\<lparr>clients := dict_set (clients m) sid client\<rparr>, True)
              else (m, False))"

text \<open>\<^verbatim>\<open>del d[k]\<close> for a key that is present.\<close>

definition dict_del :: "('k \<times> 'v) list \<Rightarrow> 'k \<Rightarrow> ('k \<times> 'v) list" where
  "dict_del d k = filter (\<lambda>kv. fst kv \<noteq> k) d"

text \<open>
  \<open>remove_server\<close> disconnects the client, which raises nothing, and deletes its key; the
  client object is dropped with it.
\<close>

definition remove_server :: "MCPManager \<Rightarrow> string \<Rightarrow> MCPManager" where
  "remove_server m sid =
     (if dict_contains (clients m) sid then m\<lparr>clients := dict_del (clients m) sid\<rparr> else m)"

text \<open>
  \<open>execute_tool\<close> returns the manager, whose client object the call has changed, and
  either the result dict or the exception that leaves the function.
\<close>

definition execute_tool ::
  "transport \<Rightarrow> MCPManager \<Rightarrow> string \<Rightarrow> string \<Rightarrow> json \<Rightarrow> MCPManager \<times> (exn + json)" where
  "execute_tool net m sid tool_name arguments =
     (case dict_get (clients m) sid of
        None \<Rightarrow> (m, Inr (JObj [(''success'', JBool False), (''error'', JStr ''Server not found'')]))
      | Some client \<Rightarrow>
          (case call_tool net (ensure_connected net client) tool_name arguments of
             (c2, Inr result) \<Rightarrow>
               (m\<lparr>clients := dict_set (clients m) sid c2\<rparr>,
                Inr (JObj [(''success'', JBool True), (''result'', result)]))
           | (c2, Inl e) \<Rightarrow>
               (m\<lparr>clients := dict_set (clients m) sid c2\<rparr>,
                Inr (JObj [(''success'', JBool False), (''error'', JStr (str_exn e))]))))"

text \<open>
  The loop of \<open>get_all_resources\<close> over \<^verbatim>\<open>self.clients.items()\<close>. It has no \<^verbatim>\<open>try\<close>: an
  exception of \<open>list_resources\<close> ends the whole call.
\<close>

fun get_all_resources_loop ::
  "transport \<Rightarrow> (string \<times> MCPClient) list \<Rightarrow> (string \<times> json) list
     \<Rightarrow> (string \<times> MCPClient) list \<times> (exn + (string \<times> json) list)" where
  "get_all_resources_loop net [] resources = ([], Inr resources)"
| "get_all_resources_loop net ((sid, client) # rest) resources =
     (if is_connected client
      then (case list_resources net client of
              (client', Inl e) \<Rightarrow> ((sid, client') # rest, Inl e)
            | (client', Inr r) \<Rightarrow>
                (case get_all_resources_loop net rest (dict_set resources sid r) of
                   (rest', out) \<Rightarrow> ((sid, client') # rest', out)))
      else (case get_all_resources_loop net rest resources of
              (rest', out) \<Rightarrow> ((sid, client) # rest', out)))"

definition get_all_resources ::
  "transport \<Rightarrow> MCPManager \<Rightarrow> MCPManager \<times> (exn + (string \<times> json) list)" where
  "get_all_resources net m =
     (case get_all_resources_loop net (clients m) [] of
        (cs, out) \<Rightarrow> (m\<lparr>clients := cs\<rparr>, out))"

text \<open>
  A request fails at the transport level when the post raises or times out, when the
  status is not 200, when the body is not JSON, or when the response document is
  \<^verbatim>\<open>null\<close> or an object without the key \<^verbatim>\<open>result\<close>.
\<close>

fun lacks_result :: "json \<Rightarrow> bool" where
  "lacks_result (JObj kvs) = (\<not> dict_contains kvs ''result'')"
| "lacks_result JNull = True"
| "lacks_result _ = False"

fun transport_failure :: "http_outcome \<Rightarrow> bool" where
  "transport_failure (NetError e) = True"
| "transport_failure NetTimeout = True"
| "transport_failure (Http status (Inl e)) = True"
| "transport_failure (Http status (Inr j)) = (status \<noteq> 200 \<or> lacks_result j)"

text \<open>
  The handshake succeeds on a response that is an object whose \<^verbatim>\<open>result\<close> is an object.
\<close>

fun handshake_ok :: "json \<Rightarrow> bool" where
  "handshake_ok (JObj kvs) = (case dict_get kvs ''result'' of Some (JObj r) \<Rightarrow> True | _ \<Rightarrow> False)"
| "handshake_ok _ = False"

fun method_of :: "json \<Rightarrow> json option" where
  "method_of (JObj kvs) = dict_get kvs ''method''"
| "method_of _ = None"

section \<open>Concurrent calls on the manager\<close>

text \<open>
  \<open>add_server\<close> and \<open>remove_server\<close> are coroutines on one event loop; their bodies run
  inside \<^verbatim>\<open>async with self._lock\<close>. A coroutine runs without interruption from one
  \<^verbatim>\<open>await\<close> to the next. Taking a free \<^verbatim>\<open>asyncio.Lock\<close> does not suspend, so a call
  has two steps: from taking the lock to its \<^verbatim>\<open>await\<close> (\<open>client.connect()\<close> or
  \<open>disconnect()\<close>), or to its return when it rejects; and from the end of that \<^verbatim>\<open>await\<close>
  to its return, which releases the lock. \<open>Waiting\<close> is a call that has not taken the
  lock, \<open>Holding\<close> one that is suspended inside the lock, \<open>Returned r\<close> one that has
  returned \<open>r\<close> (\<open>None\<close> for \<open>remove_server\<close>).
\<close>

datatype call = AddServer string string string | RemoveServer string

datatype pc = Waiting | Holding | Returned "bool option"

record system =
  manager :: MCPManager
  locked :: bool
  tasks :: "(call \<times> pc) list"

definition set_pc :: "system \<Rightarrow> nat \<Rightarrow> pc \<Rightarrow> (call \<times> pc) list" where
  "set_pc s i p = (tasks s)[i := (fst (tasks s ! i), p)]"

text \<open>
  One step of task \<open>i\<close>; \<open>None\<close> when the task cannot move (it waits for the lock, or
  it has returned). \<open>add_server\<close> is the only code that puts a key into the map;
  \<open>remove_server\<close> takes the lock as well, and \<open>shutdown\<close>, which does not, only empties
  the map.
\<close>

fun step_task :: "transport \<Rightarrow> int \<Rightarrow> system \<Rightarrow> nat \<Rightarrow> call \<Rightarrow> pc \<Rightarrow> system option" where
  "step_task net max_connections s i (AddServer sid ep nm) Waiting =
     (if locked s then None
      else if dict_contains (clients (manager s)) sid
        then Some (s\<lparr>tasks := set_pc s i (Returned (Some False))\<rparr>)
      else if max_connections \<le> int (length (clients (manager s)))
        then Some (s\<lparr>tasks := set_pc s i (Returned (Some False))\<rparr>)
      else Some (s\<lparr>locked := True, tasks := set_pc s i Holding\<rparr>))"
| "step_task net max_connections s i (AddServer sid ep nm) Holding =
     (case connect net (MCPClient_init sid ep nm) of
        (client, ok) \<Rightarrow>
          Some (s\<lparr>manager := (if ok then (manager s)\<lparr>clients := dict_set (clients (manager s)) sid client\<rparr>
                               else manager s),
                  locked := False,
                  tasks := set_pc s i (Returned (Some ok))\<rparr>))"
| "step_task net max_connections s i (RemoveServer sid) Waiting =
     (if locked s then None
      else if dict_contains (clients (manager s)) sid
        then Some (s\<lparr>locked := True, tasks := set_pc s i Holding\<rparr>)
      else Some (s\<lparr>tasks := set_pc s i (Returned None)\<rparr>))"
| "step_task net max_connections s i (RemoveServer sid) Holding =
     Some (s\<lparr>manager := (manager s)\<lparr>clients := dict_del (clients (manager s)) sid\<rparr>,
             locked := False,
             tasks := set_pc s i (Returned None)\<rparr>)"
| "step_task net max_connections s i c (Returned r) = None"

definition step :: "transport \<Rightarrow> int \<Rightarrow> nat \<Rightarrow> system \<Rightarrow> system option" where
  "step net max_connections i s =
     (if i < length (tasks s)
      then step_task net max_connections s i (fst (tasks s ! i)) (snd (tasks s ! i))
      else None)"

text \<open>
  An interleaving is the list of the tasks that move, in order. \<open>run\<close> is \<open>None\<close> for a
  list that asks a task to move when it cannot.
\<close>

fun run :: "transport \<Rightarrow> int \<Rightarrow> nat list \<Rightarrow> system \<Rightarrow> system option" where
  "run net max_connections [] s = Some s"
| "run net max_connections (i # sched) s =
     (case step net max_connections i s of
        None \<Rightarrow> None
      | Some s' \<Rightarrow> run net max_connections sched s')"

definition start_system :: "MCPManager \<Rightarrow> call list \<Rightarrow> system" where
  "start_system m calls = \<lparr> manager = m, locked = False, tasks = map (\<lambda>c. (c, Waiting)) calls \<rparr>"

definition all_returned :: "system \<Rightarrow> bool" where
  "all_returned s = list_all (\<lambda>t. snd t \<noteq> Waiting \<and> snd t \<noteq> Holding) (tasks s)"

definition returned_count :: "bool \<Rightarrow> system \<Rightarrow> nat" where
  "returned_count b s = length (filter (\<lambda>t. snd t = Returned (Some b)) (tasks s))"

fun is_add :: "call \<Rightarrow> bool" where
  "is_add (AddServer sid ep nm) = True"
| "is_add (RemoveServer sid) = False"

fun sid_of :: "call \<Rightarrow> string" where
  "sid_of (AddServer sid ep nm) = sid"
| "sid_of (RemoveServer sid) = sid"

text \<open>The transport always lets these calls connect.\<close>

fun connects :: "transport \<Rightarrow> call \<Rightarrow> bool" where
  "connects net (AddServer sid ep nm) = snd (connect net (MCPClient_init sid ep nm))"
| "connects net (RemoveServer sid) = True"

text \<open>
  The lock discipline: at most one task is inside the lock, and the lock is taken exactly
  then; while an \<open>add_server\<close> is inside, the map has room for its client.
\<close>

definition lock_inv :: "int \<Rightarrow> system \<Rightarrow> bool" where
  "lock_inv max_connections s \<longleftrightarrow>
     length (filter (\<lambda>t. snd t = Holding) (tasks s)) = (if locked s then 1 else 0)
     \<and> int (length (clients (manager s)))
         + int (length (filter (\<lambda>t. is_add (fst t) \<and> snd t = Holding) (tasks s)))
       \<le> max_connections"

text \<open>
  What holds in addition when all calls are \<open>add_server\<close> with distinct ids and every
  one of them connects: the successful calls are the registered clients, and a call was
  rejected only when the map, with the call inside the lock, was full.
\<close>

definition adds_inv :: "int \<Rightarrow> system \<Rightarrow> bool" where
  "adds_inv max_connections s \<longleftrightarrow>
     returned_count True s = length (clients (manager s))
     \<and> (0 < returned_count False s \<longrightarrow>
          max_connections \<le> int (length (clients (manager s)))
             + int (length (filter (\<lambda>t. snd t = Holding) (tasks s))))
     \<and> (\<forall>k \<in> set (map fst (clients (manager s))).
          \<exists>j < length (tasks s). sid_of (fst (tasks s ! j)) = k \<and> snd (tasks s ! j) = Returned (Some True))
     \<and> (\<forall>t \<in> set (tasks s). snd t \<noteq> Returned None)"

section \<open>JSON text\<close>

text \<open>
  \<^verbatim>\<open>json.dumps\<close> with its default separators and \<^verbatim>\<open>ensure_ascii\<close>, and \<^verbatim>\<open>json.loads\<close>, on
  texts whose characters are single bytes. \<open>loads\<close> reads the text once from left to
  right with a stack of the open arrays and objects; \<open>None\<close> stands for
  \<^verbatim>\<open>JSONDecodeError\<close>. Numbers with a fraction or an exponent and escapes of code points
  above 255 are outside the value type and are not accepted.
\<close>

definition hex_digit :: "nat \<Rightarrow> char" where
  "hex_digit n = ''0123456789abcdef'' ! n"



function str_nat :: "nat \<Rightarrow> string" where
  "str_nat n = (if n < 10 then [hex_digit n] else str_nat (n div 10) @ [hex_digit (n mod 10)])"
  by pat_completeness auto
termination
  by (relation "measure id") auto

declare str_nat.simps [simp del]





















text \<open>
  A document as \<^verbatim>\<open>json.loads\<close> can return it: in a dict the keys are distinct.
\<close>

fun wf_json :: "json \<Rightarrow> bool" where
  "wf_json (JArr xs) = list_all wf_json xs"
| "wf_json (JObj kvs) = (distinct (map fst kvs) \<and> list_all (\<lambda>kv. wf_json (snd kv)) kvs)"
| "wf_json j = True"

section \<open>STDIO bridge\<close>

text \<open>
  \<open>process\<close> is the handle of the subprocess (its pid), \<open>bridge_server\<close> the runner of the
  HTTP listener (the port it listens on); both are \<open>None\<close> until \<open>start\<close> sets them.
  \<open>host\<close> is what the operating system holds: the subprocesses that run and the ports
  with a listener.
\<close>

record STDIOBridge =
  config :: AWSQMCPServerConfig
  process :: "nat option"
  bridge_port :: "nat option"
  bridge_server :: "nat option"

definition STDIOBridge_init :: "AWSQMCPServerConfig \<Rightarrow> STDIOBridge" where
  "STDIOBridge_init server_config =
     \<lparr> config = server_config, process = None, bridge_port = None, bridge_server = None \<rparr>"

record host =
  live :: "nat list"
  listening :: "nat list"

subsection \<open>Starting\<close>

text \<open>
  What the environment does in \<open>start\<close>: \<open>spawn\<close> is \<^verbatim>\<open>asyncio.create_subprocess_exec\<close> on
  the command line and the descriptor's environment, \<open>free_port\<close> the bind to port 0 that
  picks the port, \<open>runner_setup\<close> and \<open>site_start\<close> the two steps that bring the listener
  up; each one raises or succeeds.
\<close>

record start_env =
  spawn :: "json list \<Rightarrow> json \<Rightarrow> exn + nat"
  free_port :: "exn + nat"
  runner_setup :: "exn option"
  site_start :: "exn option"

fun hashable :: "json \<Rightarrow> bool" where
  "hashable (JArr xs) = False"
| "hashable (JObj kvs) = False"
| "hashable j = True"

text \<open>
  \<^verbatim>\<open>if self.config.env: env.update(self.config.env)\<close>: which exception the update raises,
  if any. An element of a sequence given to \<^verbatim>\<open>dict.update\<close> must itself have two items,
  the first of them hashable.
\<close>

fun update_item :: "json \<Rightarrow> exn option" where
  "update_item (JArr [k, v]) =
     (if hashable k then None else Some (Exc TypeError ''unhashable type''))"
| "update_item (JArr xs) = Some (Exc ValueError ''dictionary update sequence element has wrong length'')"
| "update_item (JStr s) =
     (if length s = 2 then None
      else Some (Exc ValueError ''dictionary update sequence element has wrong length''))"
| "update_item (JObj kvs) =
     (if length kvs = 2 then None
      else Some (Exc ValueError ''dictionary update sequence element has wrong length''))"
| "update_item j = Some (Exc TypeError ''cannot convert dictionary update sequence element to a sequence'')"

fun first_error :: "exn option list \<Rightarrow> exn option" where
  "first_error [] = None"
| "first_error (None # rest) = first_error rest"
| "first_error (Some e # rest) = Some e"

fun env_update :: "json \<Rightarrow> exn option" where
  "env_update (JObj kvs) = None"
| "env_update (JArr xs) = first_error (map update_item xs)"
| "env_update (JStr s) =
     (if s = [] then None
      else Some (Exc ValueError ''dictionary update sequence element has wrong length''))"
| "env_update j = (if truthy j then Some (Exc TypeError ''object is not iterable'') else None)"

text \<open>\<^verbatim>\<open>[self.config.command] + (self.config.args or [])\<close>.\<close>

fun build_cmd :: "json \<Rightarrow> json \<Rightarrow> exn + json list" where
  "build_cmd cmd (JArr xs) = Inr (cmd # xs)"
| "build_cmd cmd a =
     (if truthy a then Inl (Exc TypeError ''can only concatenate list to list'') else Inr [cmd])"

text \<open>
  \<open>start\<close> returns the host and the bridge as they are when it ends, and the URL or the
  exception. Its \<^verbatim>\<open>except\<close> clause logs the exception and raises it again.
\<close>

definition start :: "start_env \<Rightarrow> host \<Rightarrow> STDIOBridge \<Rightarrow> (host \<times> STDIOBridge) \<times> (exn + string)" where
  "start E h b =
     (case env_update (env (config b)) of
        Some e \<Rightarrow> ((h, b), Inl e)
      | None \<Rightarrow>
        (case build_cmd (command (config b)) (args (config b)) of
           Inl e \<Rightarrow> ((h, b), Inl e)
         | Inr cmd \<Rightarrow>
           (case spawn E cmd (env (config b)) of
              Inl e \<Rightarrow> ((h, b), Inl e)
            | Inr pid \<Rightarrow>
              (case free_port E of
                 Inl e \<Rightarrow> ((h\<lparr>live := pid # live h\<rparr>, b\<lparr>process := Some pid\<rparr>), Inl e)
               | Inr port \<Rightarrow>
                 (case runner_setup E of
                    Some e \<Rightarrow>
                      ((h\<lparr>live := pid # live h\<rparr>,
                        b\<lparr>process := Some pid, bridge_port := Some port\<rparr>), Inl e)
                  | None \<Rightarrow>
                    (case site_start E of
                       Some e \<Rightarrow>
                         ((h\<lparr>live := pid # live h\<rparr>,
                           b\<lparr>process := Some pid, bridge_port := Some port\<rparr>), Inl e)
                     | None \<Rightarrow>
                         ((h\<lparr>live := pid # live h, listening := port # listening h\<rparr>,
                           b\<lparr>process := Some pid, bridge_port := Some port,
                             bridge_server := Some port\<rparr>),
                          Inr (''http://localhost:'' @ str_nat port))))))))"

subsection \<open>Relaying a request\<close>



datatype response = Response int json







subsection \<open>Stopping\<close>

text \<open>
  What the environment does in \<open>stop\<close>: whether the subprocess exits on the terminate
  signal, so that \<^verbatim>\<open>process.wait()\<close> ends; what \<^verbatim>\<open>process.terminate()\<close> does on a handle
  whose process has exited (asyncio raises \<^verbatim>\<open>ProcessLookupError\<close> once the transport of
  the process is closed); and what \<^verbatim>\<open>runner.cleanup()\<close> does.
\<close>

datatype 'a completion = Returns 'a | Raises exn | Hangs

record stop_env =
  exits_on_terminate :: bool
  terminate_exited :: "exn option"
  cleanup :: "exn option"

text \<open>\<^verbatim>\<open>if self.process: self.process.terminate(); await self.process.wait()\<close>.\<close>

definition stop_process :: "stop_env \<Rightarrow> host \<Rightarrow> STDIOBridge \<Rightarrow> host \<times> unit completion" where
  "stop_process E h b =
     (case process b of
        None \<Rightarrow> (h, Returns ())
      | Some pid \<Rightarrow>
          if pid \<in> set (live h)
          then (if exits_on_terminate E then (h\<lparr>live := removeAll pid (live h)\<rparr>, Returns ())
                else (h, Hangs))
          else (case terminate_exited E of
                  Some e \<Rightarrow> (h, Raises e)
                | None \<Rightarrow> (h, Returns ())))"

text \<open>\<open>stop\<close> assigns to no field of the bridge; it returns the host and how it ended.\<close>

definition stop :: "stop_env \<Rightarrow> host \<Rightarrow> STDIOBridge \<Rightarrow> host \<times> unit completion" where
  "stop E h b =
     (case stop_process E h b of
        (h1, Returns u) \<Rightarrow>
          (case bridge_server b of
             None \<Rightarrow> (h1, Returns ())
           | Some port \<Rightarrow>
               (case cleanup E of
                  Some e \<Rightarrow> (h1, Raises e)
                | None \<Rightarrow> (h1\<lparr>listening := removeAll port (listening h1)\<rparr>, Returns ())))
      | (h1, Raises e) \<Rightarrow> (h1, Raises e)
      | (h1, Hangs) \<Rightarrow> (h1, Hangs))"

text \<open>The process that \<open>start\<close> spawns, when it gets that far.\<close>

definition spawned :: "start_env \<Rightarrow> STDIOBridge \<Rightarrow> nat option" where
  "spawned E b =
     (case env_update (env (config b)) of
        Some e \<Rightarrow> None
      | None \<Rightarrow>
        (case build_cmd (command (config b)) (args (config b)) of
           Inl e \<Rightarrow> None
         | Inr cmd \<Rightarrow>
           (case spawn E cmd (env (config b)) of
              Inl e \<Rightarrow> None
            | Inr pid \<Rightarrow> Some pid)))"

section \<open>Example data\<close>

text \<open>
  A configuration file with three entries: a remote server, a local command, and an
  entry that is a string instead of an object.
\<close>

definition example_entries :: "(string \<times> json) list" where
  "example_entries =
     [(''search'', JObj [(''type'', JStr ''http''), (''url'', JStr ''http://localhost:9000'')]),
      (''files'', JObj [(''command'', JStr ''files-mcp''), (''args'', JArr [JStr ''--stdio''])]),
      (''broken'', JStr ''npx'')]"

definition example_config :: "(string \<times> json) list" where
  "example_config = [(''name'', JStr ''agent''), (''mcpServers'', JObj example_entries)]"

definition example_config_reordered :: "(string \<times> json) list" where
  "example_config_reordered = [(''mcpServers'', JObj (rev example_entries)), (''name'', JStr ''agent'')]"

text \<open>
  A connected client for the remote server, a manager that holds it, a network on which
  every post is refused, and a server that answers every request with an empty result.
\<close>

definition example_client :: MCPClient where
  "example_client =
     \<lparr> server_id = ''search'', endpoint = ''http://localhost:9000'', client_name = ''search'',
       session = True, capabilities = JObj [], is_connected = True, request_id = 1 \<rparr>"

definition example_manager :: MCPManager where
  "example_manager = \<lparr> clients = [(''search'', example_client)] \<rparr>"

definition net_down :: transport where
  "net_down ep request = NetError (Exc ClientError ''Cannot connect to host'')"

definition net_up :: transport where
  "net_up ep request = Http 200 (Inr (JObj [(''jsonrpc'', JStr ''2.0''), (''result'', JObj [])]))"

text \<open>
  A second connected client, a manager with both, and a network on which the first
  server is unreachable while the second lists one resource.
\<close>

definition files_client :: MCPClient where
  "files_client =
     \<lparr> server_id = ''files'', endpoint = ''http://localhost:9100'', client_name = ''files'',
       session = True, capabilities = JObj [], is_connected = True, request_id = 4 \<rparr>"

definition two_manager :: MCPManager where
  "two_manager = \<lparr> clients = [(''search'', example_client), (''files'', files_client)] \<rparr>"

definition net_mixed :: transport where
  "net_mixed ep request =
     (if ep = ''http://localhost:9000'' then NetTimeout
      else Http 200 (Inr (JObj [(''jsonrpc'', JStr ''2.0''),
             (''result'', JObj [(''resources'', JArr [JObj [(''uri'', JStr ''file:///a'')]])])])))"

text \<open>A server that answers every request with a result that is a list, not an object.\<close>

definition net_bad_result :: transport where
  "net_bad_result ep request = Http 200 (Inr (JObj [(''result'', JArr [])]))"

text \<open>Five calls of \<open>add_server\<close> with distinct ids.\<close>

definition five_adds :: "call list" where
  "five_adds =
     [AddServer ''a'' ''http://localhost:9001'' ''A'',
      AddServer ''b'' ''http://localhost:9002'' ''B'',
      AddServer ''c'' ''http://localhost:9003'' ''C'',
      AddServer ''d'' ''http://localhost:9004'' ''D'',
      AddServer ''e'' ''http://localhost:9005'' ''E'']"

text \<open>
  The descriptor of the local command, a bridge for it that has been started, and the
  host with its subprocess and its listener. The environment of \<open>asyncio_stop\<close> is
  asyncio's: the subprocess exits on the signal, and \<^verbatim>\<open>terminate()\<close> on a process that
  has exited raises. In \<open>bind_fails\<close> the subprocess starts and the listener does not.
\<close>

definition files_config :: AWSQMCPServerConfig where
  "files_config =
     \<lparr> name = ''files'', transport_type = STDIO,
       command = JStr ''files-mcp'', args = JArr [JStr ''--stdio''], env = JObj [],
       timeout = JInt 30000, url = JNull, headers = JObj [],
       oauth_client_id = JNull, oauth_client_secret = JNull, oauth_redirect_uri = JNull \<rparr>"

definition started_bridge :: STDIOBridge where
  "started_bridge =
     \<lparr> config = files_config, process = Some 4242, bridge_port = Some 8765,
       bridge_server = Some 8765 \<rparr>"

definition started_host :: host where
  "started_host = \<lparr> live = [4242], listening = [8765] \<rparr>"

definition stopped_host :: host where
  "stopped_host = \<lparr> live = [], listening = [] \<rparr>"

definition asyncio_stop :: stop_env where
  "asyncio_stop =
     \<lparr> exits_on_terminate = True,
       terminate_exited = Some (Exc ProcessLookupError []),
       cleanup = None \<rparr>"

definition bind_fails :: start_env where
  "bind_fails =
     \<lparr> spawn = (\<lambda>cmd environ. Inr 4242), free_port = Inr 8765, runner_setup = None,
       site_start = Some (Exc OSError ''address already in use'') \<rparr>"








section \<open>The configuration loader keeps the well-formed entries\<close>

lemma dict_set_fresh: "k \<notin> set (map fst d) \<Longrightarrow> dict_set d k v = d @ [(k, v)]"
  by (induction d) auto

lemma dict_get_None_iff: "dict_get d k = None \<longleftrightarrow> \<not> dict_contains d k"
  by (simp add: dict_get_def dict_contains_def map_of_eq_None_iff)

lemma extract_loop_acc:
  "distinct (map fst entries) \<Longrightarrow> set (map fst acc) \<inter> set (map fst entries) = {} \<Longrightarrow>
   extract_loop entries acc = acc @ List.map_filter parsed_entry entries"
proof (induction entries arbitrary: acc)
  case Nil
  then show ?case by (simp add: List.map_filter_simps)
next
  case (Cons entry rest)
  obtain n e where entry: "entry = (n, e)" by (cases entry)
  have fresh: "n \<notin> set (map fst acc)" using Cons.prems entry by auto
  show ?case
  proof (cases "from_dict n e")
    case (Inl err)
    have "extract_loop rest acc = acc @ List.map_filter parsed_entry rest"
      using Cons.IH [of acc] Cons.prems by auto
    then show ?thesis using Inl entry
      by (simp add: List.map_filter_simps)
  next
    case (Inr c)
    have "set (map fst (acc @ [(n, c)])) \<inter> set (map fst rest) = {}"
      using Cons.prems entry by auto
    then have "extract_loop rest (acc @ [(n, c)]) = (acc @ [(n, c)]) @ List.map_filter parsed_entry rest"
      using Cons.IH [of "acc @ [(n, c)]"] Cons.prems by simp
    then show ?thesis using Inr entry fresh
      by (simp add: List.map_filter_simps dict_set_fresh)
  qed
qed

lemma length_map_filter:
  "length (List.map_filter f xs) + length (filter (\<lambda>x. f x = None) xs) = length xs"
  by (induction xs) (simp_all add: List.map_filter_simps split: option.splits)

lemma set_map_filter: "set (List.map_filter f xs) = {y. \<exists>x \<in> set xs. f x = Some y}"
  by (induction xs) (auto simp: List.map_filter_simps split: option.splits)

lemma parsed_entry_None_iff: "parsed_entry e = None \<longleftrightarrow> \<not> well_formed e"
  by (cases e) (simp add: well_formed_def split: sum.splits)

lemma from_dict_Inr:
  "from_dict n e = Inr c \<Longrightarrow>
   \<exists>cfg. e = JObj cfg \<and> name c = n \<and>
     (transport_type c = HTTP \<longleftrightarrow> dict_get cfg ''type'' = Some (JStr ''http''))"
proof (cases e)
  case (JObj cfg)
  assume "from_dict n e = Inr c"
  with JObj have c: "c = \<lparr> name = n,
           transport_type = (if get_or cfg ''type'' JNull = JStr ''http'' then HTTP else STDIO),
           command = get_or cfg ''command'' JNull,
           args = get_or cfg ''args'' (JArr []),
           env = get_or cfg ''env'' (JObj []),
           timeout = get_or cfg ''timeout'' (JInt 30000),
           url = get_or cfg ''url'' JNull,
           headers = get_or cfg ''headers'' (JObj []),
           oauth_client_id = get_or cfg ''oauthClientId'' JNull,
           oauth_client_secret = get_or cfg ''oauthClientSecret'' JNull,
           oauth_redirect_uri = get_or cfg ''oauthRedirectUri'' JNull \<rparr>"
    by simp
  have "name c = n" by (simp add: c)
  moreover have "transport_type c = HTTP \<longleftrightarrow> get_or cfg ''type'' JNull = JStr ''http''"
    by (simp add: c)
  moreover have "get_or cfg ''type'' JNull = JStr ''http'' \<longleftrightarrow> dict_get cfg ''type'' = Some (JStr ''http'')"
    by (simp add: get_or_def split: option.splits)
  ultimately show ?thesis using JObj by simp
qed simp_all

lemma extract_mcp_servers_object:
  assumes cfg: "dict_get conf ''mcpServers'' = Some (JObj entries)"
    and keys: "distinct (map fst entries)"
  shows "extract_mcp_servers conf = Inr (List.map_filter parsed_entry entries)"
proof -
  have "dict_contains conf ''mcpServers''"
    using cfg dict_get_None_iff [of conf "''mcpServers''"] by auto
  moreover have "get_or conf ''mcpServers'' JNull = JObj entries"
    using cfg by (simp add: get_or_def)
  ultimately show ?thesis
    using extract_loop_acc [OF keys, of "[]"] by (simp add: extract_mcp_servers_def)
qed

lemma servers_of_count:
  assumes "distinct (map fst (entries_of conf))"
  shows "length (servers_of conf) + length (filter (\<lambda>e. \<not> well_formed e) (entries_of conf))
         = length (entries_of conf)"
proof (cases "dict_get conf ''mcpServers''")
  case None
  then have "\<not> dict_contains conf ''mcpServers''" by (simp add: dict_get_None_iff)
  then show ?thesis using None
    by (simp add: servers_of_def entries_of_def extract_mcp_servers_def)
next
  case (Some v)
  then have has: "dict_contains conf ''mcpServers''"
    using dict_get_None_iff [of conf "''mcpServers''"] by auto
  have v: "get_or conf ''mcpServers'' JNull = v" using Some by (simp add: get_or_def)
  show ?thesis
  proof (cases v)
    case (JObj entries)
    then have es: "entries_of conf = entries" using Some by (simp add: entries_of_def)
    have "servers_of conf = List.map_filter parsed_entry entries"
      using extract_mcp_servers_object [of conf entries] Some JObj assms es
      by (simp add: servers_of_def)
    then show ?thesis
      using length_map_filter [of parsed_entry entries] es by (simp add: parsed_entry_None_iff)
  qed (use Some has v in \<open>simp_all add: servers_of_def entries_of_def extract_mcp_servers_def\<close>)
qed

lemma servers_of_count_files:
  "\<forall>c \<in> set configs. distinct (map fst (entries_of c)) \<Longrightarrow>
   sum_list (map (\<lambda>c. length (servers_of c)) configs)
     + sum_list (map (\<lambda>c. length (filter (\<lambda>e. \<not> well_formed e) (entries_of c))) configs)
   = sum_list (map (\<lambda>c. length (entries_of c)) configs)"
proof (induction configs)
  case Nil
  then show ?case by simp
next
  case (Cons c configs)
  have "length (servers_of c) + length (filter (\<lambda>e. \<not> well_formed e) (entries_of c))
         = length (entries_of c)"
    using Cons.prems servers_of_count by simp
  moreover have "sum_list (map (\<lambda>c. length (servers_of c)) configs)
     + sum_list (map (\<lambda>c. length (filter (\<lambda>e. \<not> well_formed e) (entries_of c))) configs)
   = sum_list (map (\<lambda>c. length (entries_of c)) configs)"
    using Cons by simp
  ultimately show ?case by simp
qed

text \<open>
  Claim C8. For a configuration whose \<^verbatim>\<open>mcpServers\<close> object has the entries \<open>entries\<close>
  (a dict, so its keys are distinct), \<open>extract_mcp_servers\<close> returns exactly the
  descriptors of the well-formed entries, in their order: a malformed entry is left out
  alone. The number of descriptors is the number of entries minus the malformed ones,
  for one file and summed over any list of files. A descriptor has the name of its
  entry, and its transport is \<open>HTTP\<close> if and only if the entry's \<^verbatim>\<open>type\<close> is the string
  \<^verbatim>\<open>"http"\<close>, \<open>STDIO\<close> otherwise. The same entries in another order give the same
  descriptors.
\<close>

theorem extract_mcp_servers_well_formed_entries:
  assumes cfg: "dict_get conf ''mcpServers'' = Some (JObj entries)"
    and keys: "distinct (map fst entries)"
  shows "extract_mcp_servers conf = Inr (List.map_filter parsed_entry entries)
    \<and> length (List.map_filter parsed_entry entries)
        = length entries - length (filter (\<lambda>e. \<not> well_formed e) entries)
    \<and> (\<forall>nc \<in> set (List.map_filter parsed_entry entries).
          \<exists>cfg. (fst nc, JObj cfg) \<in> set entries \<and> name (snd nc) = fst nc \<and>
            (transport_type (snd nc) = HTTP \<longleftrightarrow> dict_get cfg ''type'' = Some (JStr ''http'')) \<and>
            (transport_type (snd nc) = STDIO \<longleftrightarrow> dict_get cfg ''type'' \<noteq> Some (JStr ''http'')))
    \<and> (dict_get conf' ''mcpServers'' = Some (JObj entries') \<and> distinct (map fst entries')
          \<and> set entries' = set entries
        \<longrightarrow> (\<exists>servers'. extract_mcp_servers conf' = Inr servers'
              \<and> set servers' = set (List.map_filter parsed_entry entries)
              \<and> length servers' = length (List.map_filter parsed_entry entries)))
    \<and> ((\<forall>c \<in> set configs. distinct (map fst (entries_of c)))
        \<longrightarrow> sum_list (map (\<lambda>c. length (servers_of c)) configs)
            = sum_list (map (\<lambda>c. length (entries_of c)) configs)
              - sum_list (map (\<lambda>c. length (filter (\<lambda>e. \<not> well_formed e) (entries_of c))) configs))"
proof (intro conjI)
  show "extract_mcp_servers conf = Inr (List.map_filter parsed_entry entries)"
    using extract_mcp_servers_object [OF cfg keys] .
next
  show "length (List.map_filter parsed_entry entries)
        = length entries - length (filter (\<lambda>e. \<not> well_formed e) entries)"
    using length_map_filter [of parsed_entry entries] by (simp add: parsed_entry_None_iff)
next
  show "\<forall>nc \<in> set (List.map_filter parsed_entry entries).
          \<exists>cfg. (fst nc, JObj cfg) \<in> set entries \<and> name (snd nc) = fst nc \<and>
            (transport_type (snd nc) = HTTP \<longleftrightarrow> dict_get cfg ''type'' = Some (JStr ''http'')) \<and>
            (transport_type (snd nc) = STDIO \<longleftrightarrow> dict_get cfg ''type'' \<noteq> Some (JStr ''http''))"
  proof
    fix nc assume "nc \<in> set (List.map_filter parsed_entry entries)"
    then obtain x where x: "x \<in> set entries" "parsed_entry x = Some nc"
      by (auto simp: set_map_filter)
    obtain n e where xe: "x = (n, e)" by (cases x)
    from x(2) xe obtain c where c: "from_dict n e = Inr c" "nc = (n, c)"
      by (auto split: sum.splits)
    from from_dict_Inr [OF c(1)] obtain cfg where cfg:
      "e = JObj cfg" "name c = n"
      "transport_type c = HTTP \<longleftrightarrow> dict_get cfg ''type'' = Some (JStr ''http'')"
      by blast
    have "transport_type c = STDIO \<longleftrightarrow> transport_type c \<noteq> HTTP"
      by (cases "transport_type c") simp_all
    with cfg x(1) xe c(2)
    show "\<exists>cfg. (fst nc, JObj cfg) \<in> set entries \<and> name (snd nc) = fst nc \<and>
            (transport_type (snd nc) = HTTP \<longleftrightarrow> dict_get cfg ''type'' = Some (JStr ''http'')) \<and>
            (transport_type (snd nc) = STDIO \<longleftrightarrow> dict_get cfg ''type'' \<noteq> Some (JStr ''http''))"
      by auto
  qed
next
  show "dict_get conf' ''mcpServers'' = Some (JObj entries') \<and> distinct (map fst entries')
          \<and> set entries' = set entries
        \<longrightarrow> (\<exists>servers'. extract_mcp_servers conf' = Inr servers'
              \<and> set servers' = set (List.map_filter parsed_entry entries)
              \<and> length servers' = length (List.map_filter parsed_entry entries))"
  proof
    assume h: "dict_get conf' ''mcpServers'' = Some (JObj entries') \<and> distinct (map fst entries')
          \<and> set entries' = set entries"
    then have r: "extract_mcp_servers conf' = Inr (List.map_filter parsed_entry entries')"
      using extract_mcp_servers_object by blast
    have s: "set (List.map_filter parsed_entry entries') = set (List.map_filter parsed_entry entries)"
      using h by (simp add: set_map_filter)
    have d: "distinct entries" "distinct entries'"
      using keys h by (auto simp: distinct_map)
    then have "length entries = length entries'"
      using h distinct_card [of entries] distinct_card [of entries'] by simp
    moreover have "length (filter (\<lambda>e. \<not> well_formed e) entries)
        = length (filter (\<lambda>e. \<not> well_formed e) entries')"
      using h d distinct_card [of "filter (\<lambda>e. \<not> well_formed e) entries"]
        distinct_card [of "filter (\<lambda>e. \<not> well_formed e) entries'"] by simp
    ultimately have "length (List.map_filter parsed_entry entries')
        = length (List.map_filter parsed_entry entries)"
      using length_map_filter [of parsed_entry entries] length_map_filter [of parsed_entry entries']
      by (simp add: parsed_entry_None_iff)
    with r s show "\<exists>servers'. extract_mcp_servers conf' = Inr servers'
              \<and> set servers' = set (List.map_filter parsed_entry entries)
              \<and> length servers' = length (List.map_filter parsed_entry entries)"
      by simp
  qed
next
  show "(\<forall>c \<in> set configs. distinct (map fst (entries_of c)))
        \<longrightarrow> sum_list (map (\<lambda>c. length (servers_of c)) configs)
            = sum_list (map (\<lambda>c. length (entries_of c)) configs)
              - sum_list (map (\<lambda>c. length (filter (\<lambda>e. \<not> well_formed e) (entries_of c))) configs)"
    using servers_of_count_files [of configs] by auto
qed

theorem extract_mcp_servers_well_formed_entries_witness:
  "dict_get example_config ''mcpServers'' = Some (JObj example_entries)
   \<and> distinct (map fst example_entries)
   \<and> extract_mcp_servers example_config = Inr (List.map_filter parsed_entry example_entries)
   \<and> map fst (List.map_filter parsed_entry example_entries) = [''search'', ''files'']
   \<and> map (\<lambda>nc. transport_type (snd nc)) (List.map_filter parsed_entry example_entries) = [HTTP, STDIO]
   \<and> length (List.map_filter parsed_entry example_entries) = 3 - 1
   \<and> (\<exists>servers'. extract_mcp_servers example_config_reordered = Inr servers'
         \<and> set servers' = set (List.map_filter parsed_entry example_entries)
         \<and> length servers' = length (List.map_filter parsed_entry example_entries))
   \<and> sum_list (map (\<lambda>c. length (servers_of c)) [example_config, example_config_reordered]) = 6 - 2"
proof -
  have h1: "dict_get example_config ''mcpServers'' = Some (JObj example_entries)"
    by (simp add: example_config_def dict_get_def)
  have h2: "distinct (map fst example_entries)"
    by (simp add: example_entries_def)
  have h3: "dict_get example_config_reordered ''mcpServers'' = Some (JObj (rev example_entries))
            \<and> distinct (map fst (rev example_entries))
            \<and> set (rev example_entries) = set example_entries"
    using h2 by (simp add: example_config_reordered_def dict_get_def rev_map [symmetric])
  have e1: "entries_of example_config = example_entries"
    by (simp add: entries_of_def h1)
  have e2: "entries_of example_config_reordered = rev example_entries"
    using h3 by (simp add: entries_of_def)
  have h4: "\<forall>c \<in> set [example_config, example_config_reordered]. distinct (map fst (entries_of c))"
    using h2 h3 by (simp add: e1 e2)
  have wf: "filter (\<lambda>e. \<not> well_formed e) example_entries = [(''broken'', JStr ''npx'')]"
    by (simp add: example_entries_def well_formed_def)
  have wf': "filter (\<lambda>e. \<not> well_formed e) (rev example_entries) = [(''broken'', JStr ''npx'')]"
    by (simp add: example_entries_def well_formed_def)
  have len: "length example_entries = 3"
    by (simp add: example_entries_def)
  have p: "map fst (List.map_filter parsed_entry example_entries) = [''search'', ''files'']"
    by (simp add: example_entries_def List.map_filter_simps)
  have q: "map (\<lambda>nc. transport_type (snd nc)) (List.map_filter parsed_entry example_entries) = [HTTP, STDIO]"
    by (simp add: example_entries_def List.map_filter_simps get_or_def dict_get_def)
  note T = extract_mcp_servers_well_formed_entries
    [OF h1 h2, of example_config_reordered "rev example_entries"
       "[example_config, example_config_reordered]"]
  from T have t1: "extract_mcp_servers example_config = Inr (List.map_filter parsed_entry example_entries)"
    by blast
  from T wf len have t2: "length (List.map_filter parsed_entry example_entries) = 3 - 1"
    by simp
  from T h3 have t3: "\<exists>servers'. extract_mcp_servers example_config_reordered = Inr servers'
         \<and> set servers' = set (List.map_filter parsed_entry example_entries)
         \<and> length servers' = length (List.map_filter parsed_entry example_entries)"
    by blast
  from T h4 have "sum_list (map (\<lambda>c. length (servers_of c)) [example_config, example_config_reordered])
            = sum_list (map (\<lambda>c. length (entries_of c)) [example_config, example_config_reordered])
              - sum_list (map (\<lambda>c. length (filter (\<lambda>e. \<not> well_formed e) (entries_of c)))
                    [example_config, example_config_reordered])"
    by blast
  then have t4: "sum_list (map (\<lambda>c. length (servers_of c)) [example_config, example_config_reordered]) = 6 - 2"
    by (simp add: e1 e2 wf wf' len)
  show ?thesis using h1 h2 t1 p q t2 t3 t4 by blast
qed

section \<open>Routing a tool call\<close>

text \<open>
  Claim C2. For a server id that is not a key of the connection map, whatever the tool
  name and the arguments, \<open>execute_tool\<close> returns the dict
  \<^verbatim>\<open>{"success": False, "error": "Server not found"}\<close>; it raises nothing and leaves
  the manager as it was.
\<close>

theorem execute_tool_unknown_server:
  assumes "\<not> dict_contains (clients m) sid"
  shows "execute_tool net m sid tool_name arguments
         = (m, Inr (JObj [(''success'', JBool False), (''error'', JStr ''Server not found'')]))"
  using assms by (simp add: execute_tool_def dict_get_None_iff [symmetric])

theorem execute_tool_unknown_server_witness:
  "\<not> dict_contains (clients MCPManager_init) ''ghost''
   \<and> execute_tool (\<lambda>ep req. NetTimeout) MCPManager_init ''ghost'' ''read_file'' (JObj [(''path'', JStr ''a.txt'')])
       = (MCPManager_init, Inr (JObj [(''success'', JBool False), (''error'', JStr ''Server not found'')]))"
proof -
  have h: "\<not> dict_contains (clients MCPManager_init) ''ghost''"
    by (simp add: MCPManager_init_def dict_contains_def)
  show ?thesis
    using h execute_tool_unknown_server [OF h, of "\<lambda>ep req. NetTimeout" "''read_file''" "JObj [(''path'', JStr ''a.txt'')]"]
    by simp
qed

section \<open>The protocol client\<close>

lemma send_request_fst: "fst (send_request net c method params) = c\<lparr>request_id := request_id c + 1\<rparr>"
  by (simp add: send_request_def Let_def split: http_outcome.splits sum.splits)

lemma send_request_snd:
  "snd (send_request net c method params) = JNull
   \<or> (session c \<and> net (endpoint c) (jsonrpc_request (request_id c + 1) method params)
          = Http 200 (Inr (snd (send_request net c method params))))"
  by (simp add: send_request_def Let_def split: http_outcome.splits sum.splits)

lemma method_of_jsonrpc_request: "method_of (jsonrpc_request rid method params) = Some (JStr method)"
  by (simp add: jsonrpc_request_def dict_get_def)

lemma lacks_result_has_result: "lacks_result j \<Longrightarrow> has_result j = Inr False"
  by (cases j) (auto simp: has_result_def)

lemma send_request_failure:
  assumes "transport_failure (net (endpoint c) (jsonrpc_request (request_id c + 1) method params))"
  shows "has_result (snd (send_request net c method params)) = Inr False"
proof -
  from send_request_snd [of net c "method" params]
  show ?thesis
  proof
    assume "snd (send_request net c method params) = JNull"
    then show ?thesis by (simp add: has_result_def)
  next
    assume "session c \<and> net (endpoint c) (jsonrpc_request (request_id c + 1) method params)
          = Http 200 (Inr (snd (send_request net c method params)))"
    with assms have "lacks_result (snd (send_request net c method params))" by simp
    then show ?thesis by (rule lacks_result_has_result)
  qed
qed

lemma initialize_fst:
  "fst (initialize net c) = c\<lparr>session := True, request_id := request_id c + 1\<rparr>"
  by (cases "session c") (simp_all add: initialize_def send_request_fst)

lemma connect_fst_cases:
  "fst (connect net c) = fst (initialize net c)
   \<or> fst (connect net c) = (fst (initialize net c))\<lparr>is_connected := False\<rparr>
   \<or> (\<exists>caps. fst (connect net c) = (fst (initialize net c))\<lparr>capabilities := caps, is_connected := True\<rparr>)"
  by (cases "initialize net c") (auto simp: connect_def split: sum.splits bool.splits)

lemma connect_endpoint: "endpoint (fst (connect net c)) = endpoint c"
  using connect_fst_cases [of net c] by (auto simp: initialize_fst)

lemma ensure_connected_endpoint: "endpoint (ensure_connected net c) = endpoint c"
  by (simp add: ensure_connected_def connect_endpoint)

lemma call_tool_failure:
  assumes "\<forall>req. method_of req = Some (JStr ''tools/call'') \<longrightarrow> transport_failure (net (endpoint c) req)"
  shows "snd (call_tool net c tool_name arguments) = Inr JNull"
proof -
  define c1 where "c1 = ensure_connected net c"
  define params where "params = JObj [(''name'', JStr tool_name),
                    (''arguments'', if truthy arguments then arguments else JObj [])]"
  have ep: "endpoint c1 = endpoint c" by (simp add: c1_def ensure_connected_endpoint)
  have "transport_failure (net (endpoint c1) (jsonrpc_request (request_id c1 + 1) ''tools/call'' params))"
    using assms ep by (simp add: method_of_jsonrpc_request)
  then have "has_result (snd (send_request net c1 ''tools/call'' params)) = Inr False"
    by (rule send_request_failure)
  then show ?thesis
    unfolding call_tool_def c1_def [symmetric] params_def [symmetric]
    by (cases "send_request net c1 ''tools/call'' params") simp
qed

lemma send_request_is_connected: "is_connected (fst (send_request net c method params)) = is_connected c"
  by (simp add: send_request_fst)

lemma dict_contains_Some: "dict_get d k = Some v \<Longrightarrow> dict_contains d k"
  using dict_get_None_iff [of d k] by auto

lemma handshake_ok_iff:
  "handshake_ok response \<longleftrightarrow>
     has_result response = Inr True \<and>
     (\<exists>result caps. py_getitem response ''result'' = Inr result
        \<and> py_get result ''capabilities'' (JObj []) = Inr caps)"
proof (cases response)
  case (JObj kvs)
  show ?thesis
  proof (cases "dict_get kvs ''result''")
    case None
    then show ?thesis using JObj by simp
  next
    case (Some r)
    then have "dict_contains kvs ''result''" by (rule dict_contains_Some)
    moreover from this have "kvs \<noteq> []" by (auto simp: dict_contains_def)
    ultimately have h: "has_result response = Inr True" using JObj by (simp add: has_result_def)
    show ?thesis using JObj Some h by (cases r) (simp_all split: option.splits)
  qed
qed (simp_all add: has_result_def)

lemma connect_snd: "snd (connect net c) \<longleftrightarrow> handshake_ok (snd (initialize net c))"
proof (cases "initialize net c")
  case (Pair c2 response)
  show ?thesis
  proof (cases "handshake_ok response")
    case True
    then obtain result caps where "has_result response = Inr True"
      "py_getitem response ''result'' = Inr result" "py_get result ''capabilities'' (JObj []) = Inr caps"
      using handshake_ok_iff by blast
    then show ?thesis using Pair True by (simp add: connect_def)
  next
    case False
    then have "has_result response \<noteq> Inr True \<or>
      (\<forall>result. py_getitem response ''result'' = Inr result \<longrightarrow>
         (\<forall>caps. py_get result ''capabilities'' (JObj []) \<noteq> Inr caps))"
      using handshake_ok_iff by blast
    then show ?thesis using Pair False
      by (auto simp: connect_def split: sum.splits bool.splits)
  qed
qed

lemma connect_is_connected:
  "is_connected (fst (connect net c)) \<longleftrightarrow>
     handshake_ok (snd (initialize net c))
     \<or> (is_connected c \<and> has_result (snd (initialize net c)) = Inr False)"
proof (cases "initialize net c")
  case (Pair c2 response)
  have c2: "is_connected c2 = is_connected c"
    using initialize_fst [of net c] Pair by simp
  show ?thesis
  proof (cases "handshake_ok response")
    case True
    then obtain result caps where "has_result response = Inr True"
      "py_getitem response ''result'' = Inr result" "py_get result ''capabilities'' (JObj []) = Inr caps"
      using handshake_ok_iff by blast
    then show ?thesis using Pair True by (simp add: connect_def)
  next
    case False
    then have "has_result response \<noteq> Inr True \<or>
      (\<forall>result. py_getitem response ''result'' = Inr result \<longrightarrow>
         (\<forall>caps. py_get result ''capabilities'' (JObj []) \<noteq> Inr caps))"
      using handshake_ok_iff by blast
    then show ?thesis using Pair False c2
      by (auto simp: connect_def split: sum.splits bool.splits)
  qed
qed

lemma call_tool_is_connected:
  "is_connected (fst (call_tool net c tool_name arguments)) = is_connected (ensure_connected net c)"
proof -
  define params where "params = JObj [(''name'', JStr tool_name),
                    (''arguments'', if truthy arguments then arguments else JObj [])]"
  obtain c2 response where sr: "send_request net (ensure_connected net c) ''tools/call'' params = (c2, response)"
    by (cases "send_request net (ensure_connected net c) ''tools/call'' params")
  then have "is_connected c2 = is_connected (ensure_connected net c)"
    using send_request_is_connected [of net "ensure_connected net c" "''tools/call''" params] by simp
  then show ?thesis
    unfolding call_tool_def params_def [symmetric] using sr
    by (simp split: sum.splits bool.splits)
qed

lemma list_resources_is_connected:
  "is_connected (fst (list_resources net c)) = is_connected (ensure_connected net c)"
proof -
  obtain c2 response where sr: "send_request net (ensure_connected net c) ''resources/list'' JNull = (c2, response)"
    by (cases "send_request net (ensure_connected net c) ''resources/list'' JNull")
  then have "is_connected c2 = is_connected (ensure_connected net c)"
    using send_request_is_connected [of net "ensure_connected net c" "''resources/list''" JNull] by simp
  then show ?thesis
    unfolding list_resources_def using sr
    by (simp split: sum.splits bool.splits)
qed

lemma list_resources_failure:
  assumes "is_connected c"
    and "transport_failure (net (endpoint c) (jsonrpc_request (request_id c + 1) ''resources/list'' JNull))"
  shows "snd (list_resources net c) = Inr (JArr [])"
proof -
  have "has_result (snd (send_request net c ''resources/list'' JNull)) = Inr False"
    using assms(2) by (rule send_request_failure)
  then show ?thesis
    unfolding list_resources_def using assms(1)
    by (cases "send_request net c ''resources/list'' JNull") (simp add: ensure_connected_def)
qed

text \<open>
  Claim C10. For a registered server id, when every \<^verbatim>\<open>tools/call\<close> request to the
  client's endpoint fails at the transport level (the post raises or times out, the
  status is not 200, the body is not JSON, or the response has no \<^verbatim>\<open>result\<close>),
  \<open>execute_tool\<close> returns \<^verbatim>\<open>{"success": True, "result": None}\<close>: \<open>send_request\<close>
  and \<open>call_tool\<close> turn the failure into \<^verbatim>\<open>None\<close>, and the \<^verbatim>\<open>except\<close> branch of
  \<open>execute_tool\<close> is not reached.
\<close>

theorem execute_tool_transport_failure:
  assumes reg: "dict_get (clients m) sid = Some client"
    and fail: "\<forall>req. method_of req = Some (JStr ''tools/call'')
                 \<longrightarrow> transport_failure (net (endpoint client) req)"
  shows "snd (execute_tool net m sid tool_name arguments)
         = Inr (JObj [(''success'', JBool True), (''result'', JNull)])"
proof -
  have "\<forall>req. method_of req = Some (JStr ''tools/call'')
          \<longrightarrow> transport_failure (net (endpoint (ensure_connected net client)) req)"
    using fail by (simp add: ensure_connected_endpoint)
  then have ct: "snd (call_tool net (ensure_connected net client) tool_name arguments) = Inr JNull"
    by (rule call_tool_failure)
  show ?thesis
    using reg ct
    by (cases "call_tool net (ensure_connected net client) tool_name arguments")
       (simp add: execute_tool_def)
qed

theorem execute_tool_transport_failure_witness:
  "dict_get (clients example_manager) ''search'' = Some example_client
   \<and> (\<forall>req. transport_failure (net_down (endpoint example_client) req))
   \<and> snd (execute_tool net_down example_manager ''search'' ''lookup'' (JObj [(''q'', JStr ''x'')]))
       = Inr (JObj [(''success'', JBool True), (''result'', JNull)])"
proof -
  have h1: "dict_get (clients example_manager) ''search'' = Some example_client"
    by (simp add: example_manager_def dict_get_def)
  have h2: "\<forall>req. method_of req = Some (JStr ''tools/call'')
          \<longrightarrow> transport_failure (net_down (endpoint example_client) req)"
    by (simp add: net_down_def)
  have h3: "\<forall>req. transport_failure (net_down (endpoint example_client) req)"
    by (simp add: net_down_def)
  show ?thesis
    using h1 h2 h3 execute_tool_transport_failure
      [where m = example_manager and sid = "''search''" and client = example_client
         and net = net_down and tool_name = "''lookup''" and arguments = "JObj [(''q'', JStr ''x'')]"]
    by blast
qed

text \<open>
  Claim C7, as stated, fails: a request that fails at the transport level leaves the
  flag of a connected client set.
\<close>

theorem request_failure_keeps_connected:
  "is_connected example_client
   \<and> transport_failure (net_down (endpoint example_client)
        (jsonrpc_request (request_id example_client + 1) ''tools/list'' JNull))
   \<and> snd (send_request net_down example_client ''tools/list'' JNull) = JNull
   \<and> is_connected (fst (send_request net_down example_client ''tools/list'' JNull))
   \<and> is_connected (fst (call_tool net_down example_client ''lookup'' JNull))"
proof -
  have a: "is_connected example_client" by (simp add: example_client_def)
  have b: "snd (send_request net_down example_client ''tools/list'' JNull) = JNull"
    by (simp add: send_request_def net_down_def Let_def)
  have c: "is_connected (fst (call_tool net_down example_client ''lookup'' JNull))"
    using a by (simp add: call_tool_is_connected ensure_connected_def)
  show ?thesis using a b c by (simp add: send_request_is_connected net_down_def)
qed

text \<open>
  Claim C7, amended. \<open>connect\<close> returns true exactly when the handshake succeeds, and
  then the flag is set; after \<open>connect\<close> the flag is set only if the handshake succeeded
  or the flag was set before and the response carried no result. A request leaves the
  flag as it was, whatever the transport does: the operations change it only through
  their lazy \<open>connect\<close>. \<open>disconnect\<close> clears the flag when closing the session does not
  raise. The client object remains after a failed request, with the same server id and
  endpoint, and a later \<open>connect\<close> whose handshake succeeds sets the flag.
\<close>

theorem connected_flag_transitions:
  "(snd (connect net c) \<longleftrightarrow> handshake_ok (snd (initialize net c)))
   \<and> (handshake_ok (snd (initialize net c)) \<longrightarrow> is_connected (fst (connect net c)))
   \<and> (is_connected (fst (connect net c)) \<longrightarrow>
        handshake_ok (snd (initialize net c))
        \<or> (is_connected c \<and> has_result (snd (initialize net c)) = Inr False))
   \<and> is_connected (fst (send_request net c method params)) = is_connected c
   \<and> is_connected (fst (call_tool net c tool_name arguments)) = is_connected (ensure_connected net c)
   \<and> is_connected (fst (list_resources net c)) = is_connected (ensure_connected net c)
   \<and> \<not> is_connected (disconnect False c)
   \<and> server_id (fst (send_request net c method params)) = server_id c
   \<and> endpoint (fst (send_request net c method params)) = endpoint c
   \<and> (handshake_ok (snd (initialize net' (fst (send_request net c method params))))
        \<longrightarrow> is_connected (fst (connect net' (fst (send_request net c method params)))))"
  using connect_snd [of net c] connect_is_connected [of net c]
    connect_is_connected [of net' "fst (send_request net c method params)"]
  by (simp add: send_request_fst call_tool_is_connected list_resources_is_connected disconnect_def)

theorem connected_flag_transitions_witness:
  "snd (send_request net_down example_client ''tools/list'' JNull) = JNull
   \<and> is_connected (fst (send_request net_down example_client ''tools/list'' JNull)) = is_connected example_client
   \<and> handshake_ok (snd (initialize net_up (fst (send_request net_down example_client ''tools/list'' JNull))))
   \<and> is_connected (fst (connect net_up (fst (send_request net_down example_client ''tools/list'' JNull))))
   \<and> handshake_ok (snd (initialize net_up (MCPClient_init ''files'' ''http://localhost:9100'' [])))
   \<and> \<not> is_connected (MCPClient_init ''files'' ''http://localhost:9100'' [])
   \<and> is_connected (fst (connect net_up (MCPClient_init ''files'' ''http://localhost:9100'' [])))
   \<and> snd (connect net_up (MCPClient_init ''files'' ''http://localhost:9100'' []))"
proof -
  have b: "snd (send_request net_down example_client ''tools/list'' JNull) = JNull"
    by (simp add: send_request_def net_down_def Let_def)
  have h: "handshake_ok (snd (initialize net_up (fst (send_request net_down example_client ''tools/list'' JNull))))"
    by (simp add: initialize_def send_request_def net_up_def net_down_def Let_def example_client_def dict_get_def)
  have h': "handshake_ok (snd (initialize net_up (MCPClient_init ''files'' ''http://localhost:9100'' [])))"
    by (simp add: initialize_def send_request_def net_up_def Let_def MCPClient_init_def dict_get_def)
  have n: "\<not> is_connected (MCPClient_init ''files'' ''http://localhost:9100'' [])"
    by (simp add: MCPClient_init_def)
  note T1 = connected_flag_transitions [of net_down example_client "''tools/list''" JNull "''t''" JNull net_up]
  note T2 = connected_flag_transitions [of net_up "MCPClient_init ''files'' ''http://localhost:9100'' []" "''tools/list''" JNull "''t''" JNull net_up]
  show ?thesis using b h h' n T1 T2 by blast
qed

section \<open>Aggregating resources\<close>

lemma get_all_resources_loop_acc:
  "distinct (map fst cs) \<Longrightarrow> set (map fst acc) \<inter> set (map fst cs) = {} \<Longrightarrow>
   snd (get_all_resources_loop net cs acc) = Inr resources \<Longrightarrow>
   map (\<lambda>sr. (fst sr, Inr (snd sr))) resources
   = map (\<lambda>sr. (fst sr, Inr (snd sr))) acc
     @ map (\<lambda>sc. (fst sc, snd (list_resources net (snd sc)))) (filter (\<lambda>sc. is_connected (snd sc)) cs)"
proof (induction cs arbitrary: acc)
  case Nil
  then show ?case by simp
next
  case (Cons sc rest)
  obtain sid client where sc: "sc = (sid, client)" by (cases sc)
  show ?case
  proof (cases "is_connected client")
    case False
    obtain rest' out where r: "get_all_resources_loop net rest acc = (rest', out)"
      by (cases "get_all_resources_loop net rest acc")
    then have "snd (get_all_resources_loop net rest acc) = Inr resources"
      using Cons.prems(3) sc False by simp
    then show ?thesis using Cons.IH [of acc] Cons.prems(1,2) sc False by auto
  next
    case True
    obtain client' lr where lr: "list_resources net client = (client', lr)"
      by (cases "list_resources net client")
    show ?thesis
    proof (cases lr)
      case (Inl e)
      then show ?thesis using Cons.prems(3) sc True lr by simp
    next
      case (Inr r)
      have fresh: "sid \<notin> set (map fst acc)" using Cons.prems(2) sc by auto
      obtain rest' out where r: "get_all_resources_loop net rest (acc @ [(sid, r)]) = (rest', out)"
        by (cases "get_all_resources_loop net rest (acc @ [(sid, r)])")
      then have "snd (get_all_resources_loop net rest (acc @ [(sid, r)])) = Inr resources"
        using Cons.prems(3) sc True lr Inr fresh by (simp add: dict_set_fresh)
      moreover have "set (map fst (acc @ [(sid, r)])) \<inter> set (map fst rest) = {}"
        using Cons.prems(1,2) sc by auto
      ultimately have "map (\<lambda>sr. (fst sr, Inr (snd sr))) resources
        = map (\<lambda>sr. (fst sr, Inr (snd sr))) (acc @ [(sid, r)])
          @ map (\<lambda>sc. (fst sc, snd (list_resources net (snd sc)))) (filter (\<lambda>sc. is_connected (snd sc)) rest)"
        using Cons.IH [of "acc @ [(sid, r)]"] Cons.prems(1) by simp
      then show ?thesis using sc True lr Inr by simp
    qed
  qed
qed

lemma get_all_resources_loop_total:
  "\<forall>sc \<in> set cs. is_connected (snd sc) \<longrightarrow> (\<exists>r. snd (list_resources net (snd sc)) = Inr r) \<Longrightarrow>
   \<exists>resources. snd (get_all_resources_loop net cs acc) = Inr resources"
proof (induction cs arbitrary: acc)
  case Nil
  then show ?case by simp
next
  case (Cons sc rest)
  obtain sid client where sc: "sc = (sid, client)" by (cases sc)
  show ?case
  proof (cases "is_connected client")
    case False
    obtain rest' out where r: "get_all_resources_loop net rest acc = (rest', out)"
      by (cases "get_all_resources_loop net rest acc")
    then show ?thesis using Cons.IH [of acc] Cons.prems sc False by auto
  next
    case True
    then obtain r where "snd (list_resources net client) = Inr r"
      using Cons.prems sc by auto
    then obtain client' where lr: "list_resources net client = (client', Inr r)"
      by (cases "list_resources net client") auto
    obtain rest' out where r: "get_all_resources_loop net rest (dict_set acc sid r) = (rest', out)"
      by (cases "get_all_resources_loop net rest (dict_set acc sid r)")
    then show ?thesis using Cons.IH [of "dict_set acc sid r"] Cons.prems sc True lr by auto
  qed
qed

lemma get_all_resources_loop_raise:
  "(\<forall>sc \<in> set before. is_connected (snd sc) \<longrightarrow> (\<exists>r. snd (list_resources net (snd sc)) = Inr r)) \<Longrightarrow>
   is_connected c \<Longrightarrow> snd (list_resources net c) = Inl e \<Longrightarrow>
   snd (get_all_resources_loop net (before @ (sid, c) # after) acc) = Inl e
   \<and> drop (Suc (length before)) (fst (get_all_resources_loop net (before @ (sid, c) # after) acc)) = after"
proof (induction before arbitrary: acc)
  case Nil
  obtain c' where lr: "list_resources net c = (c', Inl e)"
    using Nil(3) by (cases "list_resources net c") auto
  then show ?case using Nil(2) by simp
next
  case (Cons sc rest)
  obtain sid' client where sc: "sc = (sid', client)" by (cases sc)
  have IH: "\<And>acc. snd (get_all_resources_loop net (rest @ (sid, c) # after) acc) = Inl e
   \<and> drop (Suc (length rest)) (fst (get_all_resources_loop net (rest @ (sid, c) # after) acc)) = after"
    using Cons.IH Cons.prems by simp
  show ?case
  proof (cases "is_connected client")
    case False
    obtain rest' out where r: "get_all_resources_loop net (rest @ (sid, c) # after) acc = (rest', out)"
      by (cases "get_all_resources_loop net (rest @ (sid, c) # after) acc")
    then show ?thesis using IH [of acc] sc False by simp
  next
    case True
    then obtain r where "snd (list_resources net client) = Inr r"
      using Cons.prems(1) sc by auto
    then obtain client' where lr: "list_resources net client = (client', Inr r)"
      by (cases "list_resources net client") auto
    obtain rest' out where r: "get_all_resources_loop net (rest @ (sid, c) # after) (dict_set acc sid' r) = (rest', out)"
      by (cases "get_all_resources_loop net (rest @ (sid, c) # after) (dict_set acc sid' r)")
    then show ?thesis using IH [of "dict_set acc sid' r"] sc True lr by simp
  qed
qed

text \<open>
  Claim C6, as stated, fails: a connected server whose \<^verbatim>\<open>resources/list\<close> request
  fails is given an entry, and the entry is the empty list.
\<close>

theorem get_all_resources_failed_server_entry:
  "is_connected example_client
   \<and> transport_failure (net_down (endpoint example_client)
        (jsonrpc_request (request_id example_client + 1) ''resources/list'' JNull))
   \<and> snd (get_all_resources net_down example_manager) = Inr [(''search'', JArr [])]"
proof -
  have a: "is_connected example_client" by (simp add: example_client_def)
  have b: "transport_failure (net_down (endpoint example_client)
        (jsonrpc_request (request_id example_client + 1) ''resources/list'' JNull))"
    by (simp add: net_down_def)
  have "snd (list_resources net_down example_client) = Inr (JArr [])"
    using a b by (rule list_resources_failure)
  then obtain c' where "list_resources net_down example_client = (c', Inr (JArr []))"
    by (cases "list_resources net_down example_client") auto
  then have "snd (get_all_resources net_down example_manager) = Inr [(''search'', JArr [])]"
    using a by (simp add: get_all_resources_def example_manager_def)
  then show ?thesis using a b by simp
qed

text \<open>
  Claim C6, amended. \<open>get_all_resources\<close> calls \<open>list_resources\<close> on the connected
  clients in the order of the connection map. If no call raises, it returns a mapping
  that has one entry for each connected client and no other: the value that this
  client's own \<open>list_resources\<close> returned. A connected server whose \<^verbatim>\<open>resources/list\<close>
  request fails at the transport level makes \<open>list_resources\<close> return the empty list, so
  it has an entry with the empty list, and the entries of the other servers are what they
  are without it. If a call raises, as it does on a reply with status 200 whose
  \<^verbatim>\<open>result\<close> is not an object, the whole of \<open>get_all_resources\<close> raises that exception:
  no mapping is returned, and the clients after that one are not asked.
\<close>

theorem get_all_resources_entries:
  assumes keys: "distinct (map fst (clients m))"
  shows "(snd (get_all_resources net m) = Inr resources \<longrightarrow>
            map (\<lambda>sr. (fst sr, Inr (snd sr))) resources
            = map (\<lambda>sc. (fst sc, snd (list_resources net (snd sc))))
                (filter (\<lambda>sc. is_connected (snd sc)) (clients m)))
    \<and> ((\<forall>sc \<in> set (clients m). is_connected (snd sc)
            \<longrightarrow> (\<exists>r. snd (list_resources net (snd sc)) = Inr r))
        \<longrightarrow> (\<exists>found. snd (get_all_resources net m) = Inr found))
    \<and> (\<forall>sc \<in> set (clients m).
          is_connected (snd sc)
          \<and> transport_failure (net (endpoint (snd sc))
               (jsonrpc_request (request_id (snd sc) + 1) ''resources/list'' JNull))
          \<longrightarrow> snd (list_resources net (snd sc)) = Inr (JArr []))
    \<and> (\<forall>before sid c after e.
          clients m = before @ (sid, c) # after
          \<and> (\<forall>sc \<in> set before. is_connected (snd sc)
                \<longrightarrow> (\<exists>r. snd (list_resources net (snd sc)) = Inr r))
          \<and> is_connected c \<and> snd (list_resources net c) = Inl e
          \<longrightarrow> snd (get_all_resources net m) = Inl e
              \<and> drop (Suc (length before)) (clients (fst (get_all_resources net m))) = after)"
proof (intro conjI)
  have g: "snd (get_all_resources net m) = snd (get_all_resources_loop net (clients m) [])"
    by (cases "get_all_resources_loop net (clients m) []") (simp add: get_all_resources_def)
  show "snd (get_all_resources net m) = Inr resources \<longrightarrow>
            map (\<lambda>sr. (fst sr, Inr (snd sr))) resources
            = map (\<lambda>sc. (fst sc, snd (list_resources net (snd sc))))
                (filter (\<lambda>sc. is_connected (snd sc)) (clients m))"
    using get_all_resources_loop_acc [OF keys, of "[]" net resources] g by simp
  show "(\<forall>sc \<in> set (clients m). is_connected (snd sc)
            \<longrightarrow> (\<exists>r. snd (list_resources net (snd sc)) = Inr r))
        \<longrightarrow> (\<exists>found. snd (get_all_resources net m) = Inr found)"
    using get_all_resources_loop_total [of "clients m" net "[]"] g by simp
  show "\<forall>sc \<in> set (clients m).
          is_connected (snd sc)
          \<and> transport_failure (net (endpoint (snd sc))
               (jsonrpc_request (request_id (snd sc) + 1) ''resources/list'' JNull))
          \<longrightarrow> snd (list_resources net (snd sc)) = Inr (JArr [])"
    using list_resources_failure by blast
  show "\<forall>before sid c after e.
          clients m = before @ (sid, c) # after
          \<and> (\<forall>sc \<in> set before. is_connected (snd sc)
                \<longrightarrow> (\<exists>r. snd (list_resources net (snd sc)) = Inr r))
          \<and> is_connected c \<and> snd (list_resources net c) = Inl e
          \<longrightarrow> snd (get_all_resources net m) = Inl e
              \<and> drop (Suc (length before)) (clients (fst (get_all_resources net m))) = after"
  proof (intro allI impI)
    fix before sid c after e
    assume a: "clients m = before @ (sid, c) # after
          \<and> (\<forall>sc \<in> set before. is_connected (snd sc)
                \<longrightarrow> (\<exists>r. snd (list_resources net (snd sc)) = Inr r))
          \<and> is_connected c \<and> snd (list_resources net c) = Inl e"
    obtain cs out where l: "get_all_resources_loop net (clients m) [] = (cs, out)"
      by (cases "get_all_resources_loop net (clients m) []")
    have "snd (get_all_resources_loop net (before @ (sid, c) # after) []) = Inl e
     \<and> drop (Suc (length before)) (fst (get_all_resources_loop net (before @ (sid, c) # after) [])) = after"
      using a by (intro get_all_resources_loop_raise) simp_all
    then show "snd (get_all_resources net m) = Inl e
              \<and> drop (Suc (length before)) (clients (fst (get_all_resources net m))) = after"
      using a l by (simp add: get_all_resources_def)
  qed
qed

lemma list_resources_files_client:
  "snd (list_resources net_mixed files_client) = Inr (JArr [JObj [(''uri'', JStr ''file:///a'')]])"
  by (simp add: list_resources_def ensure_connected_def files_client_def send_request_def
      net_mixed_def Let_def has_result_def dict_contains_def dict_get_def)

theorem get_all_resources_entries_witness:
  "distinct (map fst (clients two_manager))
   \<and> (''search'', example_client) \<in> set (clients two_manager)
   \<and> is_connected example_client
   \<and> transport_failure (net_mixed (endpoint example_client)
        (jsonrpc_request (request_id example_client + 1) ''resources/list'' JNull))
   \<and> snd (list_resources net_mixed example_client) = Inr (JArr [])
   \<and> snd (get_all_resources net_mixed two_manager)
       = Inr [(''search'', JArr []), (''files'', JArr [JObj [(''uri'', JStr ''file:///a'')]])]
   \<and> snd (list_resources net_bad_result example_client)
       = Inl (Exc AttributeError ''object has no attribute get'')
   \<and> snd (get_all_resources net_bad_result two_manager)
       = Inl (Exc AttributeError ''object has no attribute get'')
   \<and> drop 1 (clients (fst (get_all_resources net_bad_result two_manager)))
       = [(''files'', files_client)]"
proof -
  have h: "distinct (map fst (clients two_manager))"
    by (simp add: two_manager_def)
  have mem: "(''search'', example_client) \<in> set (clients two_manager)"
    by (simp add: two_manager_def)
  have a: "is_connected example_client" "is_connected files_client"
    by (simp_all add: example_client_def files_client_def)
  have b: "transport_failure (net_mixed (endpoint example_client)
        (jsonrpc_request (request_id example_client + 1) ''resources/list'' JNull))"
    by (simp add: net_mixed_def example_client_def)
  note T = get_all_resources_entries [OF h, of net_mixed]
  from T mem a b have s: "snd (list_resources net_mixed example_client) = Inr (JArr [])"
    by fastforce
  have tot: "\<forall>sc \<in> set (clients two_manager). is_connected (snd sc)
            \<longrightarrow> (\<exists>r. snd (list_resources net_mixed (snd sc)) = Inr r)"
    using s list_resources_files_client by (simp add: two_manager_def)
  from T tot obtain found where f: "snd (get_all_resources net_mixed two_manager) = Inr found"
    by blast
  with get_all_resources_entries [OF h, of net_mixed found]
  have "map (\<lambda>sr. (fst sr, Inr (snd sr))) found
            = map (\<lambda>sc. (fst sc, snd (list_resources net_mixed (snd sc))))
                (filter (\<lambda>sc. is_connected (snd sc)) (clients two_manager))"
    by blast
  then have "map (\<lambda>sr. (fst sr, (Inr (snd sr) :: exn + json))) found
     = [(''search'', Inr (JArr [])), (''files'', Inr (JArr [JObj [(''uri'', JStr ''file:///a'')]]))]"
    using a s list_resources_files_client by (simp add: two_manager_def)
  then have "found = [(''search'', JArr []), (''files'', JArr [JObj [(''uri'', JStr ''file:///a'')]])]"
    by (auto simp: map_eq_Cons_conv)
  have bad: "snd (list_resources net_bad_result example_client)
       = Inl (Exc AttributeError ''object has no attribute get'')"
    by (simp add: list_resources_def ensure_connected_def example_client_def send_request_def
        net_bad_result_def Let_def has_result_def dict_contains_def dict_get_def)
  have split: "clients two_manager = [] @ (''search'', example_client) # [(''files'', files_client)]"
    by (simp add: two_manager_def)
  note raise_case = conjunct2 [OF conjunct2 [OF conjunct2
      [OF get_all_resources_entries [OF h, of net_bad_result]]]]
  have raised: "snd (get_all_resources net_bad_result two_manager)
                = Inl (Exc AttributeError ''object has no attribute get'')
      \<and> drop 1 (clients (fst (get_all_resources net_bad_result two_manager)))
                = [(''files'', files_client)]"
    using raise_case [THEN spec [where x = "[]"], THEN spec [where x = "''search''"],
        THEN spec [where x = example_client], THEN spec [where x = "[(''files'', files_client)]"],
        THEN spec [where x = "Exc AttributeError ''object has no attribute get''"]]
      split a(1) bad by simp
  from f h mem a b s have first: "distinct (map fst (clients two_manager))
   \<and> (''search'', example_client) \<in> set (clients two_manager)
   \<and> is_connected example_client
   \<and> transport_failure (net_mixed (endpoint example_client)
        (jsonrpc_request (request_id example_client + 1) ''resources/list'' JNull))
   \<and> snd (list_resources net_mixed example_client) = Inr (JArr [])
   \<and> snd (get_all_resources net_mixed two_manager)
       = Inr [(''search'', JArr []), (''files'', JArr [JObj [(''uri'', JStr ''file:///a'')]])]"
    using \<open>found = [(''search'', JArr []), (''files'', JArr [JObj [(''uri'', JStr ''file:///a'')]])]\<close>
    by simp
  show ?thesis using first bad raised by simp
qed

section \<open>The connection limit under concurrent calls\<close>

lemma length_filter_update:
  "i < length xs \<Longrightarrow>
   length (filter P (xs[i := y])) + (if P (xs ! i) then 1 else 0)
   = length (filter P xs) + (if P y then 1 else 0)"
proof (induction xs arbitrary: i)
  case Nil
  then show ?case by simp
next
  case (Cons x xs)
  then show ?case by (cases i) auto
qed

lemma step_cases:
  assumes "step net mx i s = Some s'"
  obtains
    (add_reject) sid ep nm where
      "i < length (tasks s)" "tasks s ! i = (AddServer sid ep nm, Waiting)" "\<not> locked s"
      "dict_contains (clients (manager s)) sid \<or> mx \<le> int (length (clients (manager s)))"
      "s' = s\<lparr>tasks := (tasks s)[i := (AddServer sid ep nm, Returned (Some False))]\<rparr>"
  | (add_enter) sid ep nm where
      "i < length (tasks s)" "tasks s ! i = (AddServer sid ep nm, Waiting)" "\<not> locked s"
      "\<not> dict_contains (clients (manager s)) sid" "int (length (clients (manager s))) < mx"
      "s' = s\<lparr>locked := True, tasks := (tasks s)[i := (AddServer sid ep nm, Holding)]\<rparr>"
  | (add_ok) sid ep nm client where
      "i < length (tasks s)" "tasks s ! i = (AddServer sid ep nm, Holding)"
      "connect net (MCPClient_init sid ep nm) = (client, True)"
      "s' = s\<lparr>manager := (manager s)\<lparr>clients := dict_set (clients (manager s)) sid client\<rparr>,
              locked := False, tasks := (tasks s)[i := (AddServer sid ep nm, Returned (Some True))]\<rparr>"
  | (add_fail) sid ep nm client where
      "i < length (tasks s)" "tasks s ! i = (AddServer sid ep nm, Holding)"
      "connect net (MCPClient_init sid ep nm) = (client, False)"
      "s' = s\<lparr>manager := manager s,
              locked := False, tasks := (tasks s)[i := (AddServer sid ep nm, Returned (Some False))]\<rparr>"
  | (rem_skip) sid where
      "i < length (tasks s)" "tasks s ! i = (RemoveServer sid, Waiting)" "\<not> locked s"
      "\<not> dict_contains (clients (manager s)) sid"
      "s' = s\<lparr>tasks := (tasks s)[i := (RemoveServer sid, Returned None)]\<rparr>"
  | (rem_enter) sid where
      "i < length (tasks s)" "tasks s ! i = (RemoveServer sid, Waiting)" "\<not> locked s"
      "dict_contains (clients (manager s)) sid"
      "s' = s\<lparr>locked := True, tasks := (tasks s)[i := (RemoveServer sid, Holding)]\<rparr>"
  | (rem_done) sid where
      "i < length (tasks s)" "tasks s ! i = (RemoveServer sid, Holding)"
      "s' = s\<lparr>manager := (manager s)\<lparr>clients := dict_del (clients (manager s)) sid\<rparr>,
              locked := False, tasks := (tasks s)[i := (RemoveServer sid, Returned None)]\<rparr>"
proof -
  from assms have i: "i < length (tasks s)"
    by (simp add: step_def split: if_splits)
  obtain c p where t: "tasks s ! i = (c, p)" by (cases "tasks s ! i")
  from assms i t have st: "step_task net mx s i c p = Some s'"
    by (simp add: step_def)
  show thesis
  proof (cases c)
    case (AddServer sid ep nm)
    show thesis
    proof (cases p)
      case Waiting
      with st AddServer t i show thesis
        by (auto simp: set_pc_def split: if_splits intro: add_reject add_enter)
    next
      case Holding
      obtain client ok where c: "connect net (MCPClient_init sid ep nm) = (client, ok)"
        by (cases "connect net (MCPClient_init sid ep nm)")
      with st AddServer t i Holding show thesis
        by (cases ok) (auto simp: set_pc_def intro: add_ok add_fail)
    next
      case (Returned r)
      with st AddServer show thesis by simp
    qed
  next
    case (RemoveServer sid)
    show thesis
    proof (cases p)
      case Waiting
      with st RemoveServer t i show thesis
        by (auto simp: set_pc_def split: if_splits intro: rem_skip rem_enter)
    next
      case Holding
      with st RemoveServer t i show thesis
        by (auto simp: set_pc_def intro: rem_done)
    next
      case (Returned r)
      with st RemoveServer show thesis by simp
    qed
  qed
qed

lemma length_dict_set: "length (dict_set d k v) \<le> Suc (length d)"
  by (induction d) auto

lemma length_dict_set_fresh: "\<not> dict_contains d k \<Longrightarrow> length (dict_set d k v) = Suc (length d)"
  by (simp add: dict_contains_def dict_set_fresh)

lemma map_fst_dict_set:
  "map fst (dict_set d k v) = (if k \<in> set (map fst d) then map fst d else map fst d @ [k])"
  by (induction d) (force split: if_splits)+

lemma keys_dict_set: "set (map fst (dict_set d k v)) = insert k (set (map fst d))"
  unfolding map_fst_dict_set by auto

lemma length_dict_del: "length (dict_del d k) \<le> length d"
  by (simp add: dict_del_def)

lemma length_filter_conj_le:
  "length (filter (\<lambda>t. P t \<and> Q t) xs) \<le> length (filter Q xs)"
  by (induction xs) auto

lemma map_fst_update:
  "i < length xs \<Longrightarrow> fst (xs ! i) = c \<Longrightarrow> map fst (xs[i := (c, p)]) = map fst xs"
  by (induction xs arbitrary: i) (auto split: nat.splits)

lemma step_calls: "step net mx i s = Some s' \<Longrightarrow> map fst (tasks s') = map fst (tasks s)"
  by (erule step_cases) (simp_all add: map_fst_update)

lemma lock_inv_step:
  assumes st: "step net mx i s = Some s'" and inv: "lock_inv mx s"
  shows "lock_inv mx s'"
proof -
  let ?H = "\<lambda>t::call \<times> pc. snd t = Holding"
  let ?A = "\<lambda>t::call \<times> pc. is_add (fst t) \<and> snd t = Holding"
  have le: "length (filter ?A (tasks s)) \<le> length (filter ?H (tasks s))"
    by (rule length_filter_conj_le)
  from inv have h: "length (filter ?H (tasks s)) = (if locked s then 1 else 0)"
    and a: "int (length (clients (manager s))) + int (length (filter ?A (tasks s))) \<le> mx"
    by (simp_all add: lock_inv_def)
  from st show ?thesis
  proof (cases rule: step_cases)
    case (add_reject sid ep nm)
    with h a length_filter_update [of i "tasks s" ?H "(AddServer sid ep nm, Returned (Some False))"]
      length_filter_update [of i "tasks s" ?A "(AddServer sid ep nm, Returned (Some False))"]
    show ?thesis by (simp add: lock_inv_def)
  next
    case (add_enter sid ep nm)
    with h a le length_filter_update [of i "tasks s" ?H "(AddServer sid ep nm, Holding)"]
      length_filter_update [of i "tasks s" ?A "(AddServer sid ep nm, Holding)"]
    show ?thesis by (simp add: lock_inv_def)
  next
    case (add_ok sid ep nm client)
    with h a le length_filter_update [of i "tasks s" ?H "(AddServer sid ep nm, Returned (Some True))"]
      length_filter_update [of i "tasks s" ?A "(AddServer sid ep nm, Returned (Some True))"]
      length_dict_set [of "clients (manager s)" sid client]
    show ?thesis by (simp add: lock_inv_def split: if_splits)
  next
    case (add_fail sid ep nm client)
    with h a le length_filter_update [of i "tasks s" ?H "(AddServer sid ep nm, Returned (Some False))"]
      length_filter_update [of i "tasks s" ?A "(AddServer sid ep nm, Returned (Some False))"]
    show ?thesis by (simp add: lock_inv_def split: if_splits)
  next
    case (rem_skip sid)
    with h a length_filter_update [of i "tasks s" ?H "(RemoveServer sid, Returned None)"]
      length_filter_update [of i "tasks s" ?A "(RemoveServer sid, Returned None)"]
    show ?thesis by (simp add: lock_inv_def)
  next
    case (rem_enter sid)
    with h a le length_filter_update [of i "tasks s" ?H "(RemoveServer sid, Holding)"]
      length_filter_update [of i "tasks s" ?A "(RemoveServer sid, Holding)"]
    show ?thesis by (simp add: lock_inv_def)
  next
    case (rem_done sid)
    with h a le length_filter_update [of i "tasks s" ?H "(RemoveServer sid, Returned None)"]
      length_filter_update [of i "tasks s" ?A "(RemoveServer sid, Returned None)"]
      length_dict_del [of "clients (manager s)" sid]
    show ?thesis by (simp add: lock_inv_def split: if_splits)
  qed
qed

lemma lock_inv_start:
  "int (length (clients m)) \<le> mx \<Longrightarrow> lock_inv mx (start_system m calls)"
  by (simp add: lock_inv_def start_system_def filter_map comp_def)

lemma lock_inv_run:
  "run net mx sched s = Some s' \<Longrightarrow> lock_inv mx s \<Longrightarrow> lock_inv mx s'"
proof (induction sched arbitrary: s)
  case Nil
  then show ?case by simp
next
  case (Cons i sched)
  then show ?case by (auto split: option.splits dest: lock_inv_step)
qed

lemma lock_inv_bound: "lock_inv mx s \<Longrightarrow> int (length (clients (manager s))) \<le> mx"
  by (simp add: lock_inv_def)

lemma adds_inv_step:
  assumes st: "step net mx i s = Some s'"
    and li: "lock_inv mx s" and ai: "adds_inv mx s"
    and adds: "list_all is_add (map fst (tasks s))"
    and dist: "distinct (map sid_of (map fst (tasks s)))"
    and conn: "list_all (connects net) (map fst (tasks s))"
  shows "adds_inv mx s'"
proof -
  let ?H = "\<lambda>t::call \<times> pc. snd t = Holding"
  let ?T = "\<lambda>t::call \<times> pc. snd t = Returned (Some True)"
  let ?F = "\<lambda>t::call \<times> pc. snd t = Returned (Some False)"
  let ?xs = "tasks s"
  let ?cs = "clients (manager s)"
  from ai have nT: "length (filter ?T ?xs) = length ?cs"
    and nF: "0 < length (filter ?F ?xs) \<longrightarrow> mx \<le> int (length ?cs) + int (length (filter ?H ?xs))"
    and reg: "\<forall>k \<in> set (map fst ?cs). \<exists>j < length ?xs.
                sid_of (fst (?xs ! j)) = k \<and> snd (?xs ! j) = Returned (Some True)"
    and nn: "\<forall>t \<in> set ?xs. snd t \<noteq> Returned None"
    by (simp_all add: adds_inv_def returned_count_def)
  from st have i: "i < length ?xs" by (simp add: step_def split: if_splits)
  have uniq: "j = i" if "j < length ?xs" "sid_of (fst (?xs ! j)) = sid_of (fst (?xs ! i))" for j
    using dist that i by (auto simp: distinct_conv_nth)
  have fresh: "\<not> dict_contains ?cs (sid_of (fst (?xs ! i)))" if "snd (?xs ! i) \<noteq> Returned (Some True)"
  proof
    assume "dict_contains ?cs (sid_of (fst (?xs ! i)))"
    then have "sid_of (fst (?xs ! i)) \<in> set (map fst ?cs)" by (simp add: dict_contains_def)
    with reg obtain j where j: "j < length ?xs" "sid_of (fst (?xs ! j)) = sid_of (fst (?xs ! i))"
      "snd (?xs ! j) = Returned (Some True)" by blast
    then have "j = i" using uniq by blast
    with j(3) that show False by simp
  qed
  have keep: "\<exists>j < length (?xs[i := y]). sid_of (fst (?xs[i := y] ! j)) = k
                 \<and> snd (?xs[i := y] ! j) = Returned (Some True)"
    if "snd (?xs ! i) \<noteq> Returned (Some True)" "k \<in> set (map fst ?cs)" for y k
  proof -
    from reg that(2) obtain j where j: "j < length ?xs" "sid_of (fst (?xs ! j)) = k"
      "snd (?xs ! j) = Returned (Some True)" by blast
    with that(1) have "j \<noteq> i" by auto
    with j show ?thesis by auto
  qed
  have nn': "\<forall>t \<in> set (?xs[i := (c, p)]). snd t \<noteq> Returned None" if "p \<noteq> Returned None" for c p
    using nn that set_update_subset_insert [of ?xs i "(c, p)"] by auto
  from adds i have isadd: "is_add (fst (?xs ! i))" by (simp add: list_all_length)
  from conn i have con: "connects net (fst (?xs ! i))" by (simp add: list_all_length)
  from li have lk: "length (filter ?H ?xs) = (if locked s then 1 else 0)"
    by (simp add: lock_inv_def)
  from st show ?thesis
  proof (cases rule: step_cases)
    case (add_reject sid ep nm)
    let ?y = "(AddServer sid ep nm, Returned (Some False))"
    have old: "snd (?xs ! i) \<noteq> Returned (Some True)" using add_reject by simp
    have "\<not> dict_contains ?cs sid" using fresh [OF old] add_reject by simp
    with add_reject have full: "mx \<le> int (length ?cs)" by simp
    have a: "length (filter ?T (?xs[i := ?y])) = length ?cs"
      using length_filter_update [of i ?xs ?T ?y] i nT add_reject(2) by simp
    have b: "length (filter ?H (?xs[i := ?y])) = length (filter ?H ?xs)"
      using length_filter_update [of i ?xs ?H ?y] i add_reject(2) by simp
    have c: "\<forall>k \<in> set (map fst ?cs). \<exists>j < length (?xs[i := ?y]).
                sid_of (fst (?xs[i := ?y] ! j)) = k \<and> snd (?xs[i := ?y] ! j) = Returned (Some True)"
      using keep [OF old] by blast
    have d: "\<forall>t \<in> set (?xs[i := ?y]). snd t \<noteq> Returned None" by (rule nn') simp
    show ?thesis
      unfolding adds_inv_def returned_count_def using a b c d full add_reject(5) by simp
  next
    case (add_enter sid ep nm)
    let ?y = "(AddServer sid ep nm, Holding)"
    have old: "snd (?xs ! i) \<noteq> Returned (Some True)" using add_enter by simp
    have a: "length (filter ?T (?xs[i := ?y])) = length ?cs"
      using length_filter_update [of i ?xs ?T ?y] i nT add_enter(2) by simp
    have b: "length (filter ?H (?xs[i := ?y])) = Suc (length (filter ?H ?xs))"
      using length_filter_update [of i ?xs ?H ?y] i add_enter(2) by simp
    have f: "length (filter ?F (?xs[i := ?y])) = length (filter ?F ?xs)"
      using length_filter_update [of i ?xs ?F ?y] i add_enter(2) by simp
    have c: "\<forall>k \<in> set (map fst ?cs). \<exists>j < length (?xs[i := ?y]).
                sid_of (fst (?xs[i := ?y] ! j)) = k \<and> snd (?xs[i := ?y] ! j) = Returned (Some True)"
      using keep [OF old] by blast
    have d: "\<forall>t \<in> set (?xs[i := ?y]). snd t \<noteq> Returned None" by (rule nn') simp
    have e: "0 < length (filter ?F (?xs[i := ?y])) \<longrightarrow>
          mx \<le> int (length ?cs) + int (length (filter ?H (?xs[i := ?y])))"
      using nF f b by auto
    show ?thesis
      unfolding adds_inv_def returned_count_def using a c d e add_enter(6) by simp
  next
    case (add_ok sid ep nm client)
    let ?y = "(AddServer sid ep nm, Returned (Some True))"
    let ?cs' = "dict_set ?cs sid client"
    have old: "snd (?xs ! i) \<noteq> Returned (Some True)" using add_ok by simp
    have nd: "\<not> dict_contains ?cs sid" using fresh [OF old] add_ok by simp
    then have len: "length ?cs' = Suc (length ?cs)" by (rule length_dict_set_fresh)
    have a: "length (filter ?T (?xs[i := ?y])) = Suc (length ?cs)"
      using length_filter_update [of i ?xs ?T ?y] i nT add_ok(2) by simp
    have b: "Suc (length (filter ?H (?xs[i := ?y]))) = length (filter ?H ?xs)"
      using length_filter_update [of i ?xs ?H ?y] i add_ok(2) by simp
    have f: "length (filter ?F (?xs[i := ?y])) = length (filter ?F ?xs)"
      using length_filter_update [of i ?xs ?F ?y] i add_ok(2) by simp
    have c: "\<forall>k \<in> set (map fst ?cs'). \<exists>j < length (?xs[i := ?y]).
                sid_of (fst (?xs[i := ?y] ! j)) = k \<and> snd (?xs[i := ?y] ! j) = Returned (Some True)"
    proof
      fix k assume "k \<in> set (map fst ?cs')"
      then have "k = sid \<or> k \<in> set (map fst ?cs)"
        unfolding keys_dict_set by blast
      then show "\<exists>j < length (?xs[i := ?y]).
                sid_of (fst (?xs[i := ?y] ! j)) = k \<and> snd (?xs[i := ?y] ! j) = Returned (Some True)"
      proof
        assume "k = sid"
        with i show ?thesis by (intro exI [of _ i]) simp
      next
        assume "k \<in> set (map fst ?cs)"
        then show ?thesis using keep [OF old] by blast
      qed
    qed
    have d: "\<forall>t \<in> set (?xs[i := ?y]). snd t \<noteq> Returned None" by (rule nn') simp
    have e: "0 < length (filter ?F (?xs[i := ?y])) \<longrightarrow>
          mx \<le> int (length ?cs') + int (length (filter ?H (?xs[i := ?y])))"
      using nF f b len by auto
    show ?thesis
      unfolding adds_inv_def returned_count_def using a c d e len add_ok(4) by simp
  next
    case (add_fail sid ep nm client)
    with con show ?thesis by simp
  next
    case (rem_skip sid)
    with isadd show ?thesis by simp
  next
    case (rem_enter sid)
    with isadd show ?thesis by simp
  next
    case (rem_done sid)
    with isadd show ?thesis by simp
  qed
qed

lemma run_calls: "run net mx sched s = Some s' \<Longrightarrow> map fst (tasks s') = map fst (tasks s)"
proof (induction sched arbitrary: s)
  case Nil
  then show ?case by simp
next
  case (Cons i sched)
  then obtain s1 where s1: "step net mx i s = Some s1" "run net mx sched s1 = Some s'"
    by (auto split: option.splits)
  with Cons.IH [of s1] step_calls [of net mx i s s1] show ?case by simp
qed

lemma adds_inv_run:
  "run net mx sched s = Some s' \<Longrightarrow> lock_inv mx s \<Longrightarrow> adds_inv mx s \<Longrightarrow>
   list_all is_add (map fst (tasks s)) \<Longrightarrow> distinct (map sid_of (map fst (tasks s))) \<Longrightarrow>
   list_all (connects net) (map fst (tasks s)) \<Longrightarrow> adds_inv mx s'"
proof (induction sched arbitrary: s)
  case Nil
  then show ?case by simp
next
  case (Cons i sched)
  then obtain s1 where s1: "step net mx i s = Some s1" "run net mx sched s1 = Some s'"
    by (auto split: option.splits)
  have c: "map fst (tasks s1) = map fst (tasks s)" using s1(1) by (rule step_calls)
  have "lock_inv mx s1" using s1(1) Cons.prems(2) by (rule lock_inv_step)
  moreover have "adds_inv mx s1"
    using s1(1) Cons.prems(2-6) by (rule adds_inv_step)
  ultimately show ?case using Cons.IH [of s1] s1(2) Cons.prems(4-6) c by simp
qed

lemma adds_inv_start: "adds_inv mx (start_system MCPManager_init calls)"
  by (simp add: adds_inv_def start_system_def MCPManager_init_def returned_count_def
      filter_map comp_def)

lemma returned_split:
  "list_all (\<lambda>t. snd t \<noteq> Waiting \<and> snd t \<noteq> Holding) xs \<Longrightarrow>
   \<forall>t \<in> set xs. snd t \<noteq> Returned None \<Longrightarrow>
   length xs = length (filter (\<lambda>t. snd t = Returned (Some True)) xs)
             + length (filter (\<lambda>t. snd t = Returned (Some False)) xs)
   \<and> filter (\<lambda>t. snd t = Holding) xs = []"
proof (induction xs)
  case Nil
  then show ?case by simp
next
  case (Cons t xs)
  obtain c p where t: "t = (c, p)" by (cases t)
  from Cons.prems t obtain b where "p = Returned (Some b)"
    by (cases p) auto
  with Cons t show ?case by (cases b) auto
qed

lemma adds_complete:
  assumes mx: "0 \<le> mx"
    and adds: "list_all is_add calls"
    and dist: "distinct (map sid_of calls)"
    and conn: "list_all (connects net) calls"
    and run: "run net mx sched (start_system MCPManager_init calls) = Some s"
    and fin: "all_returned s"
  shows "length (clients (manager s)) = min (length calls) (nat mx)
     \<and> returned_count True s = min (length calls) (nat mx)
     \<and> returned_count False s = length calls - nat mx"
proof -
  let ?s0 = "start_system MCPManager_init calls"
  have c0: "map fst (tasks ?s0) = calls" by (simp add: start_system_def comp_def)
  have l0: "lock_inv mx ?s0"
    using mx by (intro lock_inv_start) (simp add: MCPManager_init_def)
  have li: "lock_inv mx s" using run l0 by (rule lock_inv_run)
  have ai: "adds_inv mx s"
    using run l0 adds_inv_start adds dist conn by (intro adds_inv_run [of net mx sched ?s0 s]) (simp_all add: c0)
  have "map fst (tasks s) = calls" using run_calls [OF run] c0 by simp
  then have n: "length (tasks s) = length calls" by (metis length_map)
  from ai have nn: "\<forall>t \<in> set (tasks s). snd t \<noteq> Returned None" by (simp add: adds_inv_def)
  from fin nn returned_split [of "tasks s"]
  have sp: "length (tasks s) = returned_count True s + returned_count False s"
    and nh: "filter (\<lambda>t. snd t = Holding) (tasks s) = []"
    by (simp_all add: all_returned_def returned_count_def)
  from ai have t: "returned_count True s = length (clients (manager s))"
    by (simp add: adds_inv_def)
  from ai nh have f: "0 < returned_count False s \<longrightarrow> mx \<le> int (length (clients (manager s)))"
    by (simp add: adds_inv_def)
  from li have b: "int (length (clients (manager s))) \<le> mx" by (rule lock_inv_bound)
  from sp n t f b mx show ?thesis by (auto simp: min_def)
qed

lemma step_progress:
  assumes li: "lock_inv mx s" and nf: "\<not> all_returned s"
  shows "\<exists>i < length (tasks s). step net mx i s \<noteq> None"
proof -
  have holding_moves: "step net mx j s \<noteq> None"
    if jl: "j < length (tasks s)" and jh: "snd (tasks s ! j) = Holding" for j
  proof -
    obtain c where c: "tasks s ! j = (c, Holding)" using jh by (cases "tasks s ! j") simp
    show ?thesis
    proof (cases c)
      case (AddServer sid ep nm)
      then show ?thesis using jl c
        by (cases "connect net (MCPClient_init sid ep nm)") (simp add: step_def)
    next
      case (RemoveServer sid)
      then show ?thesis using jl c by (simp add: step_def)
    qed
  qed
  from nf obtain i where i: "i < length (tasks s)"
    "snd (tasks s ! i) = Waiting \<or> snd (tasks s ! i) = Holding"
    by (auto simp: all_returned_def list_all_length)
  show ?thesis
  proof (cases "\<exists>j < length (tasks s). snd (tasks s ! j) = Holding")
    case True
    then show ?thesis using holding_moves by blast
  next
    case False
    then have "filter (\<lambda>t. snd t = Holding) (tasks s) = []"
      by (fastforce simp: filter_empty_conv in_set_conv_nth)
    with li have free: "\<not> locked s" by (simp add: lock_inv_def split: if_splits)
    from False i have w: "snd (tasks s ! i) = Waiting" by blast
    obtain c where c: "tasks s ! i = (c, Waiting)" using w by (cases "tasks s ! i") simp
    have "step net mx i s \<noteq> None"
      using i(1) c free by (cases c) (simp_all add: step_def)
    with i(1) show ?thesis by blast
  qed
qed

lemma add_server_as_run:
  "\<exists>sched. run net mx sched (start_system m [AddServer sid ep nm])
     = Some \<lparr> manager = fst (add_server net mx m sid ep nm), locked = False,
              tasks = [(AddServer sid ep nm, Returned (Some (snd (add_server net mx m sid ep nm))))] \<rparr>"
proof (cases "dict_contains (clients m) sid \<or> mx \<le> int (length (clients m))")
  case True
  then have "run net mx [0] (start_system m [AddServer sid ep nm])
     = Some \<lparr> manager = fst (add_server net mx m sid ep nm), locked = False,
              tasks = [(AddServer sid ep nm, Returned (Some (snd (add_server net mx m sid ep nm))))] \<rparr>"
    by (auto simp: start_system_def step_def set_pc_def add_server_def)
  then show ?thesis by blast
next
  case False
  obtain client ok where c: "connect net (MCPClient_init sid ep nm) = (client, ok)"
    by (cases "connect net (MCPClient_init sid ep nm)")
  with False have "run net mx [0, 0] (start_system m [AddServer sid ep nm])
     = Some \<lparr> manager = fst (add_server net mx m sid ep nm), locked = False,
              tasks = [(AddServer sid ep nm, Returned (Some (snd (add_server net mx m sid ep nm))))] \<rparr>"
    by (cases ok) (simp_all add: start_system_def step_def set_pc_def add_server_def)
  then show ?thesis by blast
qed

lemma add_server_rejects:
  "dict_contains (clients m) sid \<or> mx \<le> int (length (clients m)) \<Longrightarrow>
   add_server net mx m sid ep nm = (m, False)"
  by (auto simp: add_server_def)

lemma add_server_bound:
  "int (length (clients m)) \<le> mx \<Longrightarrow>
   int (length (clients (fst (add_server net mx m sid ep nm)))) \<le> mx"
  using length_dict_set [of "clients m" sid "fst (connect net (MCPClient_init sid ep nm))"]
  by (cases "connect net (MCPClient_init sid ep nm)") (auto simp: add_server_def)

text \<open>
  Claim C1. \<open>add_server\<close> returns false and leaves the manager as it was when the id
  is already a key of the connection map or when the map holds \<open>max_connections\<close>
  entries or more; a call keeps the map within the limit, and a call alone is the two
  steps of its task. For any calls of \<open>add_server\<close> and \<open>remove_server\<close> started
  together on a manager within the limit, in every interleaving the map never holds
  more than \<open>max_connections\<close> entries, and as long as a call has not returned some
  call can move. With the limit 3, five calls of \<open>add_server\<close> with distinct ids whose
  transports always connect, started together on a new manager: however they
  interleave, when all have returned exactly 3 servers are registered, 3 calls have
  returned true and 2 have returned false.
\<close>

theorem add_server_connection_limit:
  "(dict_contains (clients m) sid \<or> mx \<le> int (length (clients m))
      \<longrightarrow> add_server net mx m sid ep nm = (m, False))
   \<and> (int (length (clients m)) \<le> mx
      \<longrightarrow> int (length (clients (fst (add_server net mx m sid ep nm)))) \<le> mx)
   \<and> (\<exists>alone. run net mx alone (start_system m [AddServer sid ep nm])
        = Some \<lparr> manager = fst (add_server net mx m sid ep nm), locked = False,
                 tasks = [(AddServer sid ep nm, Returned (Some (snd (add_server net mx m sid ep nm))))] \<rparr>)
   \<and> (int (length (clients m0)) \<le> mx \<and> run net mx sched (start_system m0 calls) = Some s
      \<longrightarrow> int (length (clients (manager s))) \<le> mx
          \<and> (\<not> all_returned s \<longrightarrow> (\<exists>i < length (tasks s). step net mx i s \<noteq> None)))
   \<and> (length adds = 5 \<and> list_all is_add adds \<and> distinct (map sid_of adds)
        \<and> list_all (connects net) adds
        \<and> run net 3 sched' (start_system MCPManager_init adds) = Some s' \<and> all_returned s'
      \<longrightarrow> length (clients (manager s')) = 3
          \<and> returned_count True s' = 3 \<and> returned_count False s' = 2)"
proof (intro conjI impI)
  show "add_server net mx m sid ep nm = (m, False)"
    if "dict_contains (clients m) sid \<or> mx \<le> int (length (clients m))"
    using that by (rule add_server_rejects)
  show "int (length (clients (fst (add_server net mx m sid ep nm)))) \<le> mx"
    if "int (length (clients m)) \<le> mx"
    using that by (rule add_server_bound)
  show "\<exists>alone. run net mx alone (start_system m [AddServer sid ep nm])
        = Some \<lparr> manager = fst (add_server net mx m sid ep nm), locked = False,
                 tasks = [(AddServer sid ep nm, Returned (Some (snd (add_server net mx m sid ep nm))))] \<rparr>"
    by (rule add_server_as_run)
next
  assume h: "int (length (clients m0)) \<le> mx \<and> run net mx sched (start_system m0 calls) = Some s"
  then have li: "lock_inv mx s"
    using lock_inv_run [of net mx sched "start_system m0 calls" s] lock_inv_start [of m0 mx calls]
    by blast
  then show "int (length (clients (manager s))) \<le> mx" by (rule lock_inv_bound)
  show "\<exists>i < length (tasks s). step net mx i s \<noteq> None" if "\<not> all_returned s"
    using li that by (rule step_progress)
next
  assume h: "length adds = 5 \<and> list_all is_add adds \<and> distinct (map sid_of adds)
        \<and> list_all (connects net) adds
        \<and> run net 3 sched' (start_system MCPManager_init adds) = Some s' \<and> all_returned s'"
  then have r: "length (clients (manager s')) = min (length adds) (nat 3)
     \<and> returned_count True s' = min (length adds) (nat 3)
     \<and> returned_count False s' = length adds - nat 3"
    by (intro adds_complete [of 3 adds net sched' s']) simp_all
  with h show "length (clients (manager s')) = 3" by simp
  from r h show "returned_count True s' = 3" by simp
  from r h show "returned_count False s' = 2" by simp
qed

lemma connect_net_up:
  "connect net_up (MCPClient_init sid ep nm)
   = (\<lparr> server_id = sid, endpoint = ep, client_name = (if nm \<noteq> [] then nm else sid),
        session = True, capabilities = JObj [], is_connected = True, request_id = 1 \<rparr>, True)"
  by (simp add: connect_def initialize_def send_request_def net_up_def MCPClient_init_def
      Let_def has_result_def dict_contains_def dict_get_def)

lemma five_adds_run:
  "\<exists>s. run net_up 3 [1, 1, 4, 4, 3, 3, 0, 2] (start_system MCPManager_init five_adds) = Some s
       \<and> all_returned s
       \<and> map fst (clients (manager s)) = [''b'', ''e'', ''d'']
       \<and> map snd (tasks s) = [Returned (Some False), Returned (Some True), Returned (Some False),
                               Returned (Some True), Returned (Some True)]"
  by (simp add: five_adds_def start_system_def step_def set_pc_def connect_net_up
      MCPManager_init_def dict_contains_def all_returned_def)

theorem add_server_connection_limit_witness:
  "dict_contains (clients example_manager) ''search''
   \<and> add_server net_up 3 example_manager ''search'' ''http://localhost:9000'' ''search''
       = (example_manager, False)
   \<and> length five_adds = 5 \<and> list_all is_add five_adds \<and> distinct (map sid_of five_adds)
   \<and> list_all (connects net_up) five_adds
   \<and> (\<exists>s. run net_up 3 [1, 1, 4, 4, 3, 3, 0, 2] (start_system MCPManager_init five_adds) = Some s
          \<and> all_returned s
          \<and> int (length (clients (manager s))) \<le> 3
          \<and> length (clients (manager s)) = 3
          \<and> returned_count True s = 3 \<and> returned_count False s = 2)"
proof -
  have a: "dict_contains (clients example_manager) ''search''"
    by (simp add: example_manager_def dict_contains_def)
  have b: "length five_adds = 5" "list_all is_add five_adds" "distinct (map sid_of five_adds)"
    by (simp_all add: five_adds_def)
  have c: "list_all (connects net_up) five_adds"
    by (simp add: five_adds_def connect_net_up)
  have e: "int (length (clients MCPManager_init)) \<le> 3"
    by (simp add: MCPManager_init_def)
  obtain s where s: "run net_up 3 [1, 1, 4, 4, 3, 3, 0, 2] (start_system MCPManager_init five_adds) = Some s"
    "all_returned s"
    using five_adds_run by blast
  note T = add_server_connection_limit
    [where m = example_manager and sid = "''search''" and mx = 3 and net = net_up
       and ep = "''http://localhost:9000''" and nm = "''search''"
       and ?m0.0 = MCPManager_init and sched = "[1, 1, 4, 4, 3, 3, 0, 2]" and calls = five_adds
       and s = s and adds = five_adds and sched' = "[1, 1, 4, 4, 3, 3, 0, 2]" and s' = s]
  from T a have t1: "add_server net_up 3 example_manager ''search'' ''http://localhost:9000'' ''search''
       = (example_manager, False)" by blast
  from T e s have t2: "int (length (clients (manager s))) \<le> 3" by blast
  from T b c s have t3: "length (clients (manager s)) = 3
          \<and> returned_count True s = 3 \<and> returned_count False s = 2" by blast
  from a b c s t1 t2 t3 show ?thesis by blast
qed

section \<open>Stopping and starting the bridge\<close>

lemma stop_never_started: "stop E h (STDIOBridge_init cfg) = (h, Returns ())"
  by (simp add: stop_def stop_process_def STDIOBridge_init_def)

lemma stop_process_Returns:
  "stop_process E h b = (h1, Returns u) \<Longrightarrow>
   (\<forall>pid. process b = Some pid \<longrightarrow> pid \<notin> set (live h1)) \<and> listening h1 = listening h"
  by (auto simp: stop_process_def split: option.splits if_splits)

lemma stop_Returns:
  assumes "stop E h b = (h', Returns u)"
  shows "(\<forall>pid. process b = Some pid \<longrightarrow> pid \<notin> set (live h'))
       \<and> (\<forall>port. bridge_server b = Some port \<longrightarrow> port \<notin> set (listening h'))"
proof -
  obtain h1 r where sp: "stop_process E h b = (h1, r)" by (cases "stop_process E h b")
  show ?thesis
  proof (cases r)
    case (Returns u1)
    with sp have p: "\<forall>pid. process b = Some pid \<longrightarrow> pid \<notin> set (live h1)"
      using stop_process_Returns by blast
    from assms sp Returns show ?thesis
      using p by (auto simp: stop_def split: option.splits)
  next
    case (Raises e)
    with assms sp show ?thesis by (simp add: stop_def)
  next
    case Hangs
    with assms sp show ?thesis by (simp add: stop_def)
  qed
qed

lemma stop_live:
  assumes "process b = Some pid" "pid \<in> set (live h)" "exits_on_terminate E" "cleanup E = None"
  shows "stop E h b
     = (h\<lparr>live := removeAll pid (live h),
          listening := (case bridge_server b of None \<Rightarrow> listening h
                        | Some port \<Rightarrow> removeAll port (listening h))\<rparr>, Returns ())"
  using assms by (simp add: stop_def stop_process_def split: option.splits)

lemma stop_again:
  assumes "process b = Some pid" "pid \<notin> set (live h)" "cleanup E = None"
    "\<forall>port. bridge_server b = Some port \<longrightarrow> port \<notin> set (listening h)"
  shows "stop E h b = (h, case terminate_exited E of None \<Rightarrow> Returns () | Some e \<Rightarrow> Raises e)"
  using assms by (auto simp: stop_def stop_process_def split: option.splits)

text \<open>
  Claim C9, as stated, fails: \<open>stop\<close> does not clear \<open>process\<close>, so a second \<open>stop\<close>
  calls \<^verbatim>\<open>terminate()\<close> on the process that the first one has ended, and asyncio raises
  \<^verbatim>\<open>ProcessLookupError\<close>.
\<close>

theorem stop_twice_raises:
  "stop asyncio_stop started_host started_bridge = (stopped_host, Returns ())
   \<and> stop asyncio_stop stopped_host started_bridge
       = (stopped_host, Raises (Exc ProcessLookupError []))"
  by (simp add: stop_def stop_process_def asyncio_stop_def started_host_def started_bridge_def
      stopped_host_def)

text \<open>
  Claim C9, amended. \<open>stop\<close> on a bridge that was never started returns and changes
  nothing. Whenever \<open>stop\<close> returns, the subprocess of the bridge does not run and its
  listener is gone. On a started bridge whose subprocess runs and exits on the terminate
  signal, with a cleanup that does not raise, \<open>stop\<close> returns. It leaves the handles in
  the bridge, so a second \<open>stop\<close> signals the same process again: it changes nothing,
  and it returns exactly when \<^verbatim>\<open>terminate()\<close> accepts a process that has exited;
  otherwise it raises that exception.
\<close>

theorem stop_idempotence:
  "stop E h (STDIOBridge_init cfg) = (h, Returns ())
   \<and> (stop E h b = (h', Returns ()) \<longrightarrow>
        (\<forall>pid. process b = Some pid \<longrightarrow> pid \<notin> set (live h'))
        \<and> (\<forall>port. bridge_server b = Some port \<longrightarrow> port \<notin> set (listening h')))
   \<and> (process b = Some pid \<and> pid \<in> set (live h) \<and> exits_on_terminate E \<and> cleanup E = None \<longrightarrow>
        (\<exists>h1. stop E h b = (h1, Returns ())
           \<and> (stop E h1 b = (h1, Returns ()) \<longleftrightarrow> terminate_exited E = None)
           \<and> (\<forall>e. terminate_exited E = Some e \<longrightarrow> stop E h1 b = (h1, Raises e))))"
proof -
  have p1: "stop E h (STDIOBridge_init cfg) = (h, Returns ())" by (rule stop_never_started)
  have p2: "stop E h b = (h', Returns ()) \<longrightarrow>
        (\<forall>pid. process b = Some pid \<longrightarrow> pid \<notin> set (live h'))
        \<and> (\<forall>port. bridge_server b = Some port \<longrightarrow> port \<notin> set (listening h'))"
    using stop_Returns [of E h b h' "()"] by blast
  have p3: "process b = Some pid \<and> pid \<in> set (live h) \<and> exits_on_terminate E \<and> cleanup E = None \<longrightarrow>
        (\<exists>h1. stop E h b = (h1, Returns ())
           \<and> (stop E h1 b = (h1, Returns ()) \<longleftrightarrow> terminate_exited E = None)
           \<and> (\<forall>e. terminate_exited E = Some e \<longrightarrow> stop E h1 b = (h1, Raises e)))"
  proof
    assume a: "process b = Some pid \<and> pid \<in> set (live h) \<and> exits_on_terminate E \<and> cleanup E = None"
    define h1 where "h1 = h\<lparr>live := removeAll pid (live h),
          listening := (case bridge_server b of None \<Rightarrow> listening h
                        | Some port \<Rightarrow> removeAll port (listening h))\<rparr>"
    have first: "stop E h b = (h1, Returns ())"
      using a stop_live [of b pid h E] by (simp add: h1_def)
    have gone: "pid \<notin> set (live h1)"
      "\<forall>port. bridge_server b = Some port \<longrightarrow> port \<notin> set (listening h1)"
      by (auto simp: h1_def)
    have second: "stop E h1 b = (h1, case terminate_exited E of None \<Rightarrow> Returns () | Some e \<Rightarrow> Raises e)"
      using a gone by (intro stop_again [of b pid]) simp_all
    have iff: "stop E h1 b = (h1, Returns ()) \<longleftrightarrow> terminate_exited E = None"
      using second by (simp split: option.splits)
    have rs: "\<forall>e. terminate_exited E = Some e \<longrightarrow> stop E h1 b = (h1, Raises e)"
      using second by simp
    show "\<exists>h1. stop E h b = (h1, Returns ())
           \<and> (stop E h1 b = (h1, Returns ()) \<longleftrightarrow> terminate_exited E = None)
           \<and> (\<forall>e. terminate_exited E = Some e \<longrightarrow> stop E h1 b = (h1, Raises e))"
      by (rule exI [of _ h1]) (intro conjI first iff rs)
  qed
  show ?thesis by (intro conjI) (fact p1 p2 p3)+
qed

theorem stop_idempotence_witness:
  "(process started_bridge = Some 4242 \<and> 4242 \<in> set (live started_host)
      \<and> exits_on_terminate asyncio_stop \<and> cleanup asyncio_stop = None)
   \<and> stop asyncio_stop started_host (STDIOBridge_init files_config) = (started_host, Returns ())
   \<and> (\<exists>h1. stop asyncio_stop started_host started_bridge = (h1, Returns ())
           \<and> (stop asyncio_stop h1 started_bridge = (h1, Returns ())
                \<longleftrightarrow> terminate_exited asyncio_stop = None)
           \<and> (\<forall>e. terminate_exited asyncio_stop = Some e
                \<longrightarrow> stop asyncio_stop h1 started_bridge = (h1, Raises e)))"
proof -
  have a: "process started_bridge = Some 4242 \<and> 4242 \<in> set (live started_host)
     \<and> exits_on_terminate asyncio_stop \<and> cleanup asyncio_stop = None"
    by (simp add: started_bridge_def started_host_def asyncio_stop_def)
  note T = stop_idempotence [where E = asyncio_stop and h = started_host and b = started_bridge
      and h' = stopped_host and pid = 4242 and cfg = files_config]
  have ex: "\<exists>h1. stop asyncio_stop started_host started_bridge = (h1, Returns ())
           \<and> (stop asyncio_stop h1 started_bridge = (h1, Returns ())
                \<longleftrightarrow> terminate_exited asyncio_stop = None)
           \<and> (\<forall>e. terminate_exited asyncio_stop = Some e
                \<longrightarrow> stop asyncio_stop h1 started_bridge = (h1, Raises e))"
    by (rule mp [OF conjunct2 [OF conjunct2 [OF T]] a])
  show ?thesis
    by (rule conjI [OF a conjI [OF conjunct1 [OF T] ex]])
qed

lemma start_spawn_failed:
  "spawned E b = None \<Longrightarrow> \<exists>e. start E h b = ((h, b), Inl e)"
  by (auto simp: spawned_def start_def split: option.splits sum.splits)

lemma start_spawned:
  assumes "spawned E b = Some pid"
  shows "start E h b =
     (case free_port E of
        Inl e \<Rightarrow> ((h\<lparr>live := pid # live h\<rparr>, b\<lparr>process := Some pid\<rparr>), Inl e)
      | Inr port \<Rightarrow>
        (case runner_setup E of
           Some e \<Rightarrow>
             ((h\<lparr>live := pid # live h\<rparr>,
               b\<lparr>process := Some pid, bridge_port := Some port\<rparr>), Inl e)
         | None \<Rightarrow>
           (case site_start E of
              Some e \<Rightarrow>
                ((h\<lparr>live := pid # live h\<rparr>,
                  b\<lparr>process := Some pid, bridge_port := Some port\<rparr>), Inl e)
            | None \<Rightarrow>
                ((h\<lparr>live := pid # live h, listening := port # listening h\<rparr>,
                  b\<lparr>process := Some pid, bridge_port := Some port,
                    bridge_server := Some port\<rparr>),
                 Inr (''http://localhost:'' @ str_nat port)))))"
proof -
  from assms obtain cmd where
    "env_update (env (config b)) = None"
    "build_cmd (command (config b)) (args (config b)) = Inr cmd"
    "spawn E cmd (env (config b)) = Inr pid"
    by (auto simp: spawned_def split: option.splits sum.splits)
  then show ?thesis by (simp add: start_def)
qed

lemma start_failure_spawned:
  assumes sp: "spawned E b = Some pid" and st: "start E h b = ((h', b'), Inl e)"
  shows "live h' = pid # live h \<and> listening h' = listening h
       \<and> process b' = Some pid \<and> bridge_server b' = bridge_server b \<and> config b' = config b"
proof (cases "free_port E")
  case (Inl e1)
  with st start_spawned [OF sp, of h]
  have "h' = h\<lparr>live := pid # live h\<rparr>" "b' = b\<lparr>process := Some pid\<rparr>" by simp_all
  then show ?thesis by simp
next
  case (Inr port)
  show ?thesis
  proof (cases "runner_setup E")
    case (Some e1)
    with Inr st start_spawned [OF sp, of h]
    have "h' = h\<lparr>live := pid # live h\<rparr>"
      "b' = b\<lparr>process := Some pid, bridge_port := Some port\<rparr>" by simp_all
    then show ?thesis by simp
  next
    case None
    show ?thesis
    proof (cases "site_start E")
      case (Some e1)
      with None Inr st start_spawned [OF sp, of h]
      have "h' = h\<lparr>live := pid # live h\<rparr>"
        "b' = b\<lparr>process := Some pid, bridge_port := Some port\<rparr>" by simp_all
      then show ?thesis by simp
    next
      case n: None
      with None Inr st start_spawned [OF sp, of h] show ?thesis by simp
    qed
  qed
qed

lemma start_success:
  assumes st: "start E h b = ((h', b'), Inr u)"
  shows "\<exists>pid port. spawned E b = Some pid \<and> free_port E = Inr port
       \<and> live h' = pid # live h \<and> listening h' = port # listening h
       \<and> process b' = Some pid \<and> bridge_server b' = Some port
       \<and> u = ''http://localhost:'' @ str_nat port"
proof (cases "spawned E b")
  case None
  then show ?thesis using st start_spawn_failed [of E b h] by auto
next
  case (Some pid)
  note sp = start_spawned [OF Some, of h]
  show ?thesis
  proof (cases "free_port E")
    case (Inl e1)
    with st sp show ?thesis by simp
  next
    case (Inr port)
    show ?thesis
    proof (cases "runner_setup E")
      case (Some e1)
      with Inr st sp show ?thesis by simp
    next
      case None
      show ?thesis
      proof (cases "site_start E")
        case (Some e1)
        with None Inr st sp show ?thesis by simp
      next
        case n: None
        with None Inr st sp
        have "h' = h\<lparr>live := pid # live h, listening := port # listening h\<rparr>"
          "b' = b\<lparr>process := Some pid, bridge_port := Some port, bridge_server := Some port\<rparr>"
          "u = ''http://localhost:'' @ str_nat port" by simp_all
        with \<open>spawned E b = Some pid\<close> Inr show ?thesis by simp
      qed
    qed
  qed
qed

lemma start_bind_fails:
  "start bind_fails stopped_host (STDIOBridge_init files_config)
   = ((\<lparr> live = [4242], listening = [] \<rparr>,
       \<lparr> config = files_config, process = Some 4242, bridge_port = Some 8765,
         bridge_server = None \<rparr>),
      Inl (Exc OSError ''address already in use''))"
  by (simp add: start_def bind_fails_def stopped_host_def STDIOBridge_init_def files_config_def)

lemma spawned_bind_fails: "spawned bind_fails (STDIOBridge_init files_config) = Some 4242"
  by (simp add: spawned_def bind_fails_def STDIOBridge_init_def files_config_def)

text \<open>
  Claim C3, as stated, fails: when the subprocess has started and the listener cannot be
  bound, \<open>start\<close> raises and leaves the subprocess running, with its handle in the
  bridge.
\<close>

theorem start_leaves_process_running:
  "start bind_fails stopped_host (STDIOBridge_init files_config)
   = ((\<lparr> live = [4242], listening = [] \<rparr>,
       \<lparr> config = files_config, process = Some 4242, bridge_port = Some 8765,
         bridge_server = None \<rparr>),
      Inl (Exc OSError ''address already in use''))
   \<and> 4242 \<in> set (live (fst (fst (start bind_fails stopped_host (STDIOBridge_init files_config)))))"
  by (simp add: start_bind_fails)

text \<open>
  Claim C3, amended. Whenever \<open>start\<close> fails, the exception reaches the caller, no
  listener is bound and none is recorded in the bridge. When the failure comes before
  the subprocess is spawned, or is the spawn itself, the host and the bridge are as
  before. When it comes after the spawn, \<open>start\<close> does not terminate the subprocess: it
  runs on and stays recorded in the bridge, and a later \<open>stop\<close> whose signal the process
  obeys terminates it.
\<close>

theorem start_failure_state:
  assumes st: "start E h b = ((h', b'), Inl e)"
  shows "listening h' = listening h \<and> bridge_server b' = bridge_server b
     \<and> (spawned E b = None \<longrightarrow> h' = h \<and> b' = b)
     \<and> (\<forall>pid. spawned E b = Some pid \<longrightarrow>
           live h' = pid # live h \<and> process b' = Some pid
           \<and> (exits_on_terminate S \<and> cleanup S = None \<longrightarrow>
                (\<exists>h2. stop S h' b' = (h2, Returns ()) \<and> pid \<notin> set (live h2))))"
proof (cases "spawned E b")
  case None
  then obtain e0 where "start E h b = ((h, b), Inl e0)"
    using start_spawn_failed [of E b h] by blast
  with st have "h' = h" "b' = b" by simp_all
  with None show ?thesis by simp
next
  case (Some pid)
  from start_failure_spawned [OF Some st]
  have f: "live h' = pid # live h" "listening h' = listening h"
    "process b' = Some pid" "bridge_server b' = bridge_server b" by simp_all
  have "\<exists>h2. stop S h' b' = (h2, Returns ()) \<and> pid \<notin> set (live h2)"
    if "exits_on_terminate S \<and> cleanup S = None"
  proof -
    have "pid \<in> set (live h')" using f(1) by simp
    then have "stop S h' b'
     = (h'\<lparr>live := removeAll pid (live h'),
          listening := (case bridge_server b' of None \<Rightarrow> listening h'
                        | Some port \<Rightarrow> removeAll port (listening h'))\<rparr>, Returns ())"
      using that f(3) by (intro stop_live) simp_all
    then show ?thesis by simp
  qed
  with Some f show ?thesis by simp
qed

theorem start_failure_state_witness:
  "start bind_fails stopped_host (STDIOBridge_init files_config)
   = ((\<lparr> live = [4242], listening = [] \<rparr>,
       \<lparr> config = files_config, process = Some 4242, bridge_port = Some 8765,
         bridge_server = None \<rparr>),
      Inl (Exc OSError ''address already in use''))
   \<and> spawned bind_fails (STDIOBridge_init files_config) = Some 4242
   \<and> exits_on_terminate asyncio_stop \<and> cleanup asyncio_stop = None
   \<and> (\<exists>h2. stop asyncio_stop \<lparr> live = [4242], listening = [] \<rparr>
              \<lparr> config = files_config, process = Some 4242, bridge_port = Some 8765,
                bridge_server = None \<rparr> = (h2, Returns ())
          \<and> 4242 \<notin> set (live h2))"
proof -
  let ?h = "\<lparr> live = [4242], listening = [] \<rparr>"
  let ?b = "\<lparr> config = files_config, process = Some 4242, bridge_port = Some 8765,
         bridge_server = None \<rparr>"
  have s: "exits_on_terminate asyncio_stop \<and> cleanup asyncio_stop = None"
    by (simp add: asyncio_stop_def)
  note T = start_failure_state [OF start_bind_fails, where S = asyncio_stop]
  from T have "\<forall>pid. spawned bind_fails (STDIOBridge_init files_config) = Some pid \<longrightarrow>
           live ?h = pid # live stopped_host \<and> process ?b = Some pid
           \<and> (exits_on_terminate asyncio_stop \<and> cleanup asyncio_stop = None \<longrightarrow>
                (\<exists>h2. stop asyncio_stop ?h ?b = (h2, Returns ()) \<and> pid \<notin> set (live h2)))"
    by (rule conjunct2 [THEN conjunct2, THEN conjunct2])
  then have "exits_on_terminate asyncio_stop \<and> cleanup asyncio_stop = None \<longrightarrow>
                (\<exists>h2. stop asyncio_stop ?h ?b = (h2, Returns ()) \<and> 4242 \<notin> set (live h2))"
    using spawned_bind_fails by (elim allE [of _ 4242]) (rule conjunct2 [THEN conjunct2], erule mp)
  then have ex: "\<exists>h2. stop asyncio_stop ?h ?b = (h2, Returns ()) \<and> 4242 \<notin> set (live h2)"
    using s by (rule mp)
  show ?thesis
    by (intro conjI start_bind_fails spawned_bind_fails conjunct1 [OF s] conjunct2 [OF s] ex)
qed

section \<open>Relaying a request through the bridge\<close>


























end
